theory Spec2Isabelle
  imports Complex_Main
begin

section \<open>Tensors and errors\<close>

text \<open>
  The classifiers of \<^verbatim>\<open>nn_models.py\<close> are thin compositions of layers of the numeric
  framework. A tensor is modelled as its shape, its elements in the row-major order of
  their indices, and its strides: the element of index \<open>(i\<^sub>1, \<dots>, i\<^sub>n)\<close> lies
  \<open>i\<^sub>1 * s\<^sub>1 + \<dots> + i\<^sub>n * s\<^sub>n\<close> places after the first one in memory, and a tensor has as
  many strides as dimensions. The elements are real numbers: the arithmetic of the model
  is the exact arithmetic that the floating-point operations of the framework approximate.
  Every exception the Python code or the framework raises is a value of \<open>error\<close>; a
  call that raises returns the error alone, so what it wrote before raising is not part
  of the result.
\<close>

datatype error = AssertionError | RuntimeError | ValueError | IndexError | AttributeError

record tensor =
  shape :: "nat list"
  data :: "real list"
  strides :: "nat list"

definition numel :: "tensor \<Rightarrow> nat" where
  "numel t = prod_list (shape t)"

definition wf_tensor :: "tensor \<Rightarrow> bool" where
  "wf_tensor t \<longleftrightarrow> length (data t) = prod_list (shape t)"

text \<open>
  A tensor that the framework allocates is contiguous: its elements lie in memory in
  row-major order, so the stride of a dimension is the product of the sizes of the
  dimensions after it, a size of 0 counting as 1. Every operation of the model but
  \<^verbatim>\<open>view\<close> and \<^verbatim>\<open>squeeze\<close>, which return another view of the memory of their argument,
  returns a tensor allocated for its result, or its argument where it has nothing to
  compute. Nothing in \<^verbatim>\<open>nn_models.py\<close> reads the strides
  of a result: the only operation that depends on strides is \<^verbatim>\<open>view\<close>, and it is applied
  to the arguments of the call.
\<close>

fun contiguous_strides :: "nat list \<Rightarrow> nat list" where
  "contiguous_strides [] = []"
| "contiguous_strides (d # ds) = prod_list (map (max 1) ds) # contiguous_strides ds"

definition tensor_of :: "nat list \<Rightarrow> real list \<Rightarrow> tensor" where
  "tensor_of s d = \<lparr>shape = s, data = d, strides = contiguous_strides s\<rparr>"

text \<open>Sequencing of computations that may raise.\<close>

definition bind :: "error + 'a \<Rightarrow> ('a \<Rightarrow> error + 'b) \<Rightarrow> error + 'b" where
  "bind r f = (case r of Inl e \<Rightarrow> Inl e | Inr v \<Rightarrow> f v)"

text \<open>
  The source of randomness of the framework. A generator yields the keep/drop decisions
  of the dropout layer one element at a time; a layer that draws \<open>n\<close> decisions leaves the
  generator advanced by \<open>n\<close>.
\<close>

type_synonym generator = "nat \<Rightarrow> bool"

definition advance :: "nat \<Rightarrow> generator \<Rightarrow> generator" where
  "advance n g = (\<lambda>k. g (k + n))"

section \<open>Layers\<close>

record linear_params =
  in_features :: nat
  out_features :: nat
  lin_weight :: "real list list"
  lin_bias :: "real list option"

record conv1d_params =
  in_channels :: nat
  out_channels :: nat
  kernel_size :: nat
  padding :: nat
  conv_weight :: "real list list list"
  conv_bias :: "real list option"

record batchnorm_params =
  num_features :: nat
  eps :: real
  momentum :: real
  bn_weight :: "real list"
  bn_bias :: "real list"
  running_mean :: "real list"
  running_var :: "real list"
  num_batches_tracked :: nat

text \<open>
  The layer kinds the two classifiers are built from. \<open>Dropout p\<close> carries its rate,
  \<open>Softmax d\<close> the dimension it normalises, \<open>MaxPool1d k s\<close> its kernel size and stride,
  \<open>AdaptiveAvgPool1d n\<close> its output length.
\<close>

datatype layer =
    Linear linear_params
  | Softplus
  | Dropout real
  | Softmax nat
  | Conv1d conv1d_params
  | BatchNorm1d batchnorm_params
  | ReLU
  | LeakyReLU
  | MaxPool1d nat nat
  | AdaptiveAvgPool1d nat

subsection \<open>Elementwise layers\<close>

definition map_tensor :: "(real \<Rightarrow> real) \<Rightarrow> tensor \<Rightarrow> tensor" where
  "map_tensor f t = tensor_of (shape t) (map f (data t))"

text \<open>\<^verbatim>\<open>nn.Softplus()\<close> with its defaults \<^verbatim>\<open>beta=1, threshold=20\<close>: above the threshold the
  framework returns the input itself.\<close>

definition softplus :: "real \<Rightarrow> real" where
  "softplus v = (if v > 20 then v else ln (1 + exp v))"

definition relu :: "real \<Rightarrow> real" where
  "relu v = max 0 v"

text \<open>\<^verbatim>\<open>nn.LeakyReLU()\<close> with its default \<^verbatim>\<open>negative_slope=0.01\<close>.\<close>

definition leaky_relu :: "real \<Rightarrow> real" where
  "leaky_relu v = (if v \<ge> 0 then v else v / 100)"

text \<open>
  \<^verbatim>\<open>nn.Dropout(p)\<close>: the identity in evaluation mode; in training mode every element is kept
  (and scaled by \<open>1 / (1 - p)\<close>) or zeroed as the generator decides, and the generator is
  advanced by the number of elements.
\<close>

definition dropout_forward :: "real \<Rightarrow> bool \<Rightarrow> generator \<Rightarrow> tensor \<Rightarrow> tensor \<times> generator" where
  "dropout_forward p tr g x =
     (if tr then
        (tensor_of (shape x)
           (map (\<lambda>k. if g k then data x ! k / (1 - p) else 0) [0..<length (data x)]),
         advance (length (data x)) g)
      else (x, g))"

subsection \<open>Linear\<close>

text \<open>
  \<^verbatim>\<open>nn.Linear\<close> applies \<open>y = x W\<^sup>T + b\<close> along the last dimension of an input of
  any rank at least 1, whose last dimension must be \<open>in_features\<close>.
\<close>

definition linear_forward :: "linear_params \<Rightarrow> tensor \<Rightarrow> error + tensor" where
  "linear_forward l x =
     (if shape x = [] \<or> last (shape x) \<noteq> in_features l then Inl RuntimeError
      else
        let n = prod_list (butlast (shape x)); i = in_features l; m = out_features l in
        Inr (tensor_of (butlast (shape x) @ [m])
               (map (\<lambda>k.
                      (case lin_bias l of None \<Rightarrow> 0 | Some b \<Rightarrow> b ! (k mod m)) +
                      sum_list (map (\<lambda>j. lin_weight l ! (k mod m) ! j * data x ! ((k div m) * i + j))
                                  [0..<i]))
                    [0..<n * m])))"

subsection \<open>Softmax\<close>

text \<open>
  \<^verbatim>\<open>nn.Softmax(dim=d)\<close>: every element is exponentiated and divided by the sum of the
  exponentials of the elements that differ from it in dimension \<open>d\<close> only. With \<open>C\<close> the
  size of dimension \<open>d\<close> and \<open>inner\<close> the number of elements of one index of that dimension,
  the element at flat position \<open>k\<close> has the companions
  \<open>(k div (C * inner)) * (C * inner) + c * inner + k mod inner\<close> for \<open>c < C\<close>.
\<close>

definition softmax_forward :: "nat \<Rightarrow> tensor \<Rightarrow> error + tensor" where
  "softmax_forward d x =
     (if length (shape x) \<le> d then Inl IndexError
      else
        let C = shape x ! d; inner = prod_list (drop (Suc d) (shape x)) in
        Inr (tensor_of (shape x)
               (map (\<lambda>k.
                   exp (data x ! k) /
                   sum_list (map (\<lambda>c. exp (data x ! ((k div (C * inner)) * (C * inner) + c * inner + k mod inner)))
                               [0..<C]))
                 [0..<length (data x)])))"

subsection \<open>Convolution\<close>

text \<open>
  \<^verbatim>\<open>nn.Conv1d\<close> with stride 1, as the classifier uses it, on a batched input of shape
  \<open>(N, C, L)\<close>: the input is padded with \<open>padding\<close> zeros on both sides, and the output
  has length \<open>L + 2 * padding - kernel_size + 1\<close>. On an input without channels, which
  a layer built for no input channels accepts, the framework returns an output without
  channels. An input of another rank is refused.
  (Where the framework reads an input of rank 2 as a single unbatched sample, a later
  layer of the classifier refuses what comes of it, so that the classifier raises on such
  an input in either case.)
\<close>

definition padded :: "tensor \<Rightarrow> nat \<Rightarrow> nat \<Rightarrow> nat \<Rightarrow> nat \<Rightarrow> nat \<Rightarrow> nat \<Rightarrow> real" where
  "padded x C L p n ci m =
     (if p \<le> m \<and> m < p + L then data x ! (n * C * L + ci * L + (m - p)) else 0)"

definition conv1d_forward :: "conv1d_params \<Rightarrow> tensor \<Rightarrow> error + tensor" where
  "conv1d_forward c x =
     (case shape x of
        [N, C, L] \<Rightarrow>
          if C \<noteq> in_channels c then Inl RuntimeError
          else if L + 2 * padding c < kernel_size c then Inl RuntimeError
          else
            let Lo = L + 2 * padding c - kernel_size c + 1;
                Co = (if C = 0 then 0 else out_channels c) in
            Inr (tensor_of [N, Co, Lo]
                   (map (\<lambda>k.
                          let n = k div (Co * Lo); co = (k div Lo) mod Co; l = k mod Lo in
                          (case conv_bias c of None \<Rightarrow> 0 | Some b \<Rightarrow> b ! co) +
                          sum_list (map (\<lambda>ci.
                            sum_list (map (\<lambda>j. conv_weight c ! co ! ci ! j * padded x C L (padding c) n ci (l + j))
                                        [0..<kernel_size c]))
                            [0..<C]))
                        [0..<N * Co * Lo]))
      | _ \<Rightarrow> Inl RuntimeError)"

subsection \<open>Batch normalisation\<close>

definition mean :: "real list \<Rightarrow> real" where
  "mean xs = sum_list xs / real (length xs)"

text \<open>The values of channel \<open>c\<close> of an input of shape \<open>(N, C, L)\<close>, over the whole batch.\<close>

definition channel_values :: "tensor \<Rightarrow> nat \<Rightarrow> nat \<Rightarrow> nat \<Rightarrow> nat \<Rightarrow> real list" where
  "channel_values x N C L c =
     map (\<lambda>m. data x ! ((m div L) * C * L + c * L + m mod L)) [0..<N * L]"

definition batch_mean :: "tensor \<Rightarrow> nat \<Rightarrow> nat \<Rightarrow> nat \<Rightarrow> nat \<Rightarrow> real" where
  "batch_mean x N C L c = mean (channel_values x N C L c)"

definition sq_dev :: "tensor \<Rightarrow> nat \<Rightarrow> nat \<Rightarrow> nat \<Rightarrow> nat \<Rightarrow> real" where
  "sq_dev x N C L c =
     sum_list (map (\<lambda>v. (v - batch_mean x N C L c)\<^sup>2) (channel_values x N C L c))"

definition normalise :: "batchnorm_params \<Rightarrow> (nat \<Rightarrow> real) \<Rightarrow> (nat \<Rightarrow> real) \<Rightarrow> nat \<Rightarrow> nat \<Rightarrow> tensor \<Rightarrow> tensor" where
  "normalise b mu var C L x =
     tensor_of (shape x)
       (map (\<lambda>k. let c = (k div L) mod C in
                 (data x ! k - mu c) / sqrt (var c + eps b) * bn_weight b ! c + bn_bias b ! c)
               [0..<length (data x)])"

text \<open>
  \<^verbatim>\<open>nn.BatchNorm1d\<close> on an input of shape \<open>(N, C)\<close> or \<open>(N, C, L)\<close>. In evaluation mode
  the running statistics normalise the input and nothing is written. In training mode the
  statistics of the batch normalise it (the biased variance), the running statistics move
  towards them by \<open>momentum\<close> (with the unbiased variance) and the batch counter is
  incremented; a batch with a single value per channel is refused, and an input without
  elements is returned as it is.
\<close>

definition batchnorm_forward :: "bool \<Rightarrow> batchnorm_params \<Rightarrow> tensor \<Rightarrow> error + (tensor \<times> batchnorm_params)" where
  "batchnorm_forward tr b x =
     (if length (shape x) \<noteq> 2 \<and> length (shape x) \<noteq> 3 then Inl ValueError
      else
        let N = shape x ! 0; C = shape x ! 1; L = prod_list (drop 2 (shape x)) in
        if tr \<and> N * L = 1 then Inl ValueError
        else if C \<noteq> num_features b then Inl RuntimeError
        else if \<not> tr then
          Inr (normalise b (\<lambda>c. running_mean b ! c) (\<lambda>c. running_var b ! c) C L x, b)
        else if N * C * L = 0 then
          Inr (x, b\<lparr>num_batches_tracked := num_batches_tracked b + 1\<rparr>)
        else
          Inr (normalise b (batch_mean x N C L) (\<lambda>c. sq_dev x N C L c / real (N * L)) C L x,
               b\<lparr>running_mean := map (\<lambda>c. (1 - momentum b) * running_mean b ! c
                                            + momentum b * batch_mean x N C L c) [0..<C],
                 running_var := map (\<lambda>c. (1 - momentum b) * running_var b ! c
                                            + momentum b * (sq_dev x N C L c / real (N * L - 1))) [0..<C],
                 num_batches_tracked := num_batches_tracked b + 1\<rparr>))"

subsection \<open>Pooling\<close>

text \<open>\<^verbatim>\<open>nn.MaxPool1d(k, stride=s)\<close> on shape \<open>(N, C, L)\<close>: windows of \<open>k\<close> elements every
  \<open>s\<close> positions; an input shorter than the window is refused.\<close>

definition maxpool1d_forward :: "nat \<Rightarrow> nat \<Rightarrow> tensor \<Rightarrow> error + tensor" where
  "maxpool1d_forward k s x =
     (case shape x of
        [N, C, L] \<Rightarrow>
          if k = 0 \<or> s = 0 \<or> L < k then Inl RuntimeError
          else
            let Lo = (L - k) div s + 1 in
            Inr (tensor_of [N, C, Lo]
                   (map (\<lambda>i. Max (set (map (\<lambda>j. data x ! ((i div Lo) * L + (i mod Lo) * s + j)) [0..<k])))
                        [0..<N * C * Lo]))
      | _ \<Rightarrow> Inl RuntimeError)"

text \<open>\<^verbatim>\<open>nn.AdaptiveAvgPool1d(n)\<close> on shape \<open>(N, C, L)\<close>: output position \<open>i\<close> is the mean of
  the input positions from \<open>\<lfloor>i L / n\<rfloor>\<close> up to \<open>\<lceil>(i + 1) L / n\<rceil>\<close>.\<close>

definition adaptive_avgpool1d_forward :: "nat \<Rightarrow> tensor \<Rightarrow> error + tensor" where
  "adaptive_avgpool1d_forward n x =
     (case shape x of
        [N, C, L] \<Rightarrow>
          if L = 0 then Inl RuntimeError
          else
            Inr (tensor_of [N, C, n]
                   (map (\<lambda>i.
                          let r = i div n; s = ((i mod n) * L) div n;
                              e = ((i mod n + 1) * L + n - 1) div n in
                          mean (map (\<lambda>j. data x ! (r * L + j)) [s..<e]))
                        [0..<N * C * n]))
      | _ \<Rightarrow> Inl RuntimeError)"

subsection \<open>One layer, and \<^verbatim>\<open>nn.Sequential\<close>\<close>

text \<open>
  Applying a layer returns the output, the layer with its buffers as the call leaves them
  (only batch normalisation writes any) and the generator as the call leaves it (only
  dropout draws from it). The flag is the \<^verbatim>\<open>training\<close> attribute of the module.
\<close>

fun layer_forward :: "bool \<Rightarrow> layer \<Rightarrow> generator \<Rightarrow> tensor \<Rightarrow> error + (tensor \<times> layer \<times> generator)" where
  "layer_forward tr (Linear l) g x = bind (linear_forward l x) (\<lambda>y. Inr (y, Linear l, g))"
| "layer_forward tr Softplus g x = Inr (map_tensor softplus x, Softplus, g)"
| "layer_forward tr (Dropout p) g x =
     (case dropout_forward p tr g x of (y, g') \<Rightarrow> Inr (y, Dropout p, g'))"
| "layer_forward tr (Softmax d) g x = bind (softmax_forward d x) (\<lambda>y. Inr (y, Softmax d, g))"
| "layer_forward tr (Conv1d c) g x = bind (conv1d_forward c x) (\<lambda>y. Inr (y, Conv1d c, g))"
| "layer_forward tr (BatchNorm1d b) g x =
     bind (batchnorm_forward tr b x) (\<lambda>(y, b'). Inr (y, BatchNorm1d b', g))"
| "layer_forward tr ReLU g x = Inr (map_tensor relu x, ReLU, g)"
| "layer_forward tr LeakyReLU g x = Inr (map_tensor leaky_relu x, LeakyReLU, g)"
| "layer_forward tr (MaxPool1d k s) g x =
     bind (maxpool1d_forward k s x) (\<lambda>y. Inr (y, MaxPool1d k s, g))"
| "layer_forward tr (AdaptiveAvgPool1d n) g x =
     bind (adaptive_avgpool1d_forward n x) (\<lambda>y. Inr (y, AdaptiveAvgPool1d n, g))"

fun sequential_forward :: "bool \<Rightarrow> layer list \<Rightarrow> generator \<Rightarrow> tensor \<Rightarrow> error + (tensor \<times> layer list \<times> generator)" where
  "sequential_forward tr [] g x = Inr (x, [], g)"
| "sequential_forward tr (m # ms) g x =
     bind (layer_forward tr m g x) (\<lambda>(y, m', g').
       bind (sequential_forward tr ms g' y) (\<lambda>(z, ms', g''). Inr (z, m' # ms', g'')))"

section \<open>Tensor operations of the forward passes\<close>

text \<open>
  \<^verbatim>\<open>Tensor.view\<close> returns a tensor of another shape on the memory of its argument, without
  copying, so the new shape must have strides that address the same elements in the same
  order. The framework computes them as follows. The dimensions of the argument are read
  from the last to the first and gathered in chunks: a chunk ends before a dimension
  whose size is not 1 and whose stride is not the one that continues the chunk (the
  product of the sizes gathered times the stride of the last dimension of the chunk), and
  at the first dimension. At the end of a chunk, dimensions of the new shape are taken,
  from the last, while their product is less than the number of elements of the chunk,
  and as long as they have size 1; each gets as stride the product of those taken before
  it in the chunk times the stride of the last dimension of the chunk. The view is
  refused when the dimensions taken do not multiply to the number of elements of the
  chunk, or when dimensions of the new shape are left in the end.

  In the functions below the dimensions of the argument come as pairs of size and stride,
  last dimension first, and the new shape likewise reversed; \<open>base\<close> is the stride of the
  last dimension of the chunk, \<open>tensor_numel\<close> the number of elements gathered and
  \<open>view_numel\<close> the product of the dimensions taken.
\<close>

fun fill_view :: "nat \<Rightarrow> nat \<Rightarrow> nat \<Rightarrow> nat list \<Rightarrow> nat list \<Rightarrow> nat \<times> nat list \<times> nat list" where
  "fill_view base tensor_numel view_numel [] newstride = (view_numel, [], newstride)"
| "fill_view base tensor_numel view_numel (v # vs) newstride =
     (if view_numel < tensor_numel \<or> v = 1
      then fill_view base tensor_numel (view_numel * v) vs ((view_numel * base) # newstride)
      else (view_numel, v # vs, newstride))"

fun chunks :: "(nat \<times> nat) list \<Rightarrow> nat \<Rightarrow> nat \<Rightarrow> nat list \<Rightarrow> nat list \<Rightarrow> nat list option" where
  "chunks [] base tensor_numel vs newstride = (if vs = [] then Some newstride else None)"
| "chunks ((d, st) # rest) base tensor_numel vs newstride =
     (let tn = tensor_numel * d in
      if (case rest of [] \<Rightarrow> True | (d', st') # _ \<Rightarrow> d' \<noteq> 1 \<and> st' \<noteq> tn * base) then
        (case fill_view base tn 1 vs newstride of
           (view_numel, vs', newstride') \<Rightarrow>
             if view_numel \<noteq> tn then None
             else (case rest of
                     [] \<Rightarrow> chunks rest base tn vs' newstride'
                   | (d', st') # _ \<Rightarrow> chunks rest st' 1 vs' newstride'))
      else chunks rest base tn vs newstride)"

text \<open>
  The strides of a view of shape \<open>newshape\<close>, with as many elements, of a tensor of shape
  \<open>oldshape\<close> and strides \<open>oldstride\<close>, or \<open>None\<close> when there are none. A tensor without
  dimensions has one element, and every view of it has strides 1; the strides of a tensor
  without elements address nothing, and every view of it is allowed. In every other case
  the list of pairs of size and stride is not empty, and the first chunk starts with the
  stride of the last dimension.
\<close>

definition compute_stride :: "nat list \<Rightarrow> nat list \<Rightarrow> nat list \<Rightarrow> nat list option" where
  "compute_stride oldshape oldstride newshape =
     (if oldshape = [] then Some (replicate (length newshape) 1)
      else if prod_list oldshape = 0 then
        Some (if oldshape = newshape then oldstride else contiguous_strides newshape)
      else
        (case rev (zip oldshape oldstride) of
           [] \<Rightarrow> None
         | (d, st) # rest \<Rightarrow> chunks ((d, st) # rest) st 1 (rev newshape) []))"

text \<open>
  \<^verbatim>\<open>t.view((-1, k))\<close>: the elements of \<open>t\<close> regrouped in rows of \<open>k\<close>, the number of rows
  being inferred. The framework refuses \<open>k = 0\<close> (the inferred dimension is ambiguous or
  the shape invalid), a negative \<open>k\<close> (a second inferred dimension, or an invalid one),
  an element count that \<open>k\<close> does not divide, and a tensor whose strides allow no view of
  the new shape, such as a transposed one.
\<close>

definition view :: "tensor \<Rightarrow> int \<Rightarrow> error + tensor" where
  "view t k =
     (if k \<le> 0 then Inl RuntimeError
      else if numel t mod nat k \<noteq> 0 then Inl RuntimeError
      else
        (case compute_stride (shape t) (strides t) [numel t div nat k, nat k] of
           None \<Rightarrow> Inl RuntimeError
         | Some st \<Rightarrow> Inr \<lparr>shape = [numel t div nat k, nat k], data = data t, strides = st\<rparr>))"

text \<open>
  Broadcasting, as \<^verbatim>\<open>torch.add\<close> applies it: the shorter shape is extended with leading
  ones, and two sizes of a dimension are compatible when they are equal or one of them
  is 1, in which case that operand is repeated along the dimension.
\<close>

definition broadcast_dim :: "nat \<Rightarrow> nat \<Rightarrow> nat option" where
  "broadcast_dim a b = (if a = b \<or> b = 1 then Some a else if a = 1 then Some b else None)"

fun broadcast_shapes :: "nat list \<Rightarrow> nat list \<Rightarrow> nat list option" where
  "broadcast_shapes [] [] = Some []"
| "broadcast_shapes (a # as) (b # bs) =
     (case broadcast_dim a b of
        None \<Rightarrow> None
      | Some d \<Rightarrow> (case broadcast_shapes as bs of None \<Rightarrow> None | Some ds \<Rightarrow> Some (d # ds)))"
| "broadcast_shapes _ _ = None"

definition slice :: "nat \<Rightarrow> nat \<Rightarrow> 'a list \<Rightarrow> 'a list" where
  "slice i k xs = take k (drop (i * k) xs)"

fun broadcast_data :: "(real \<Rightarrow> real \<Rightarrow> real) \<Rightarrow> nat list \<Rightarrow> nat list \<Rightarrow> real list \<Rightarrow> real list \<Rightarrow> real list" where
  "broadcast_data f [] [] xs ys = map2 f xs ys"
| "broadcast_data f (a # as) (b # bs) xs ys =
     concat (map (\<lambda>i. broadcast_data f as bs
                        (slice (if a = 1 then 0 else i) (prod_list as) xs)
                        (slice (if b = 1 then 0 else i) (prod_list bs) ys))
                 [0..<(if a = 1 then b else a)])"
| "broadcast_data f _ _ xs ys = []"

definition pad_shape :: "nat \<Rightarrow> nat list \<Rightarrow> nat list" where
  "pad_shape r s = replicate (r - length s) 1 @ s"

definition torch_add :: "tensor \<Rightarrow> tensor \<Rightarrow> error + tensor" where
  "torch_add x y =
     (let r = max (length (shape x)) (length (shape y));
          sx = pad_shape r (shape x); sy = pad_shape r (shape y) in
      case broadcast_shapes sx sy of
        None \<Rightarrow> Inl RuntimeError
      | Some s \<Rightarrow> Inr (tensor_of s (broadcast_data (+) sx sy (data x) (data y))))"

definition torch_div :: "tensor \<Rightarrow> real \<Rightarrow> tensor" where
  "torch_div t c = map_tensor (\<lambda>v. v / c) t"

definition torch_log :: "tensor \<Rightarrow> tensor" where
  "torch_log t = map_tensor ln t"

text \<open>\<^verbatim>\<open>torch.squeeze(t)\<close>, called without a dimension, drops every dimension of size 1,
  with its stride.\<close>

definition torch_squeeze :: "tensor \<Rightarrow> tensor" where
  "torch_squeeze t =
     t\<lparr>shape := filter (\<lambda>d. d \<noteq> 1) (shape t),
       strides := map snd (filter (\<lambda>(d, s). d \<noteq> 1) (zip (shape t) (strides t)))\<rparr>"

section \<open>Construction of layers\<close>

text \<open>
  The constructors of the framework allocate the parameter tensors and fill them with
  random initial values. The values are a parameter of the model, a stream consumed in
  order; allocation of a tensor with a negative dimension is refused.
\<close>

type_synonym init_values = "nat \<Rightarrow> real"

definition new_Linear :: "init_values \<Rightarrow> int \<Rightarrow> int \<Rightarrow> error + (linear_params \<times> init_values)" where
  "new_Linear w i m =
     (if i < 0 \<or> m < 0 then Inl RuntimeError
      else Inr (\<lparr>in_features = nat i, out_features = nat m,
                 lin_weight = map (\<lambda>r. map (\<lambda>j. w (r * nat i + j)) [0..<nat i]) [0..<nat m],
                 lin_bias = Some (map (\<lambda>r. w (nat m * nat i + r)) [0..<nat m])\<rparr>,
                \<lambda>n. w (n + nat m * nat i + nat m)))"

definition new_Conv1d :: "init_values \<Rightarrow> int \<Rightarrow> int \<Rightarrow> nat \<Rightarrow> nat \<Rightarrow> error + (conv1d_params \<times> init_values)" where
  "new_Conv1d w i m k p =
     (if i < 0 \<or> m < 0 then Inl RuntimeError
      else Inr (\<lparr>in_channels = nat i, out_channels = nat m, kernel_size = k, padding = p,
                 conv_weight = map (\<lambda>r. map (\<lambda>ci. map (\<lambda>j. w (r * nat i * k + ci * k + j)) [0..<k])
                                              [0..<nat i]) [0..<nat m],
                 conv_bias = Some (map (\<lambda>r. w (nat m * nat i * k + r)) [0..<nat m])\<rparr>,
                \<lambda>n. w (n + nat m * nat i * k + nat m)))"

text \<open>\<^verbatim>\<open>nn.BatchNorm1d(n)\<close> with its defaults \<^verbatim>\<open>eps=1e-5, momentum=0.1\<close>.\<close>

definition new_BatchNorm1d :: "nat \<Rightarrow> batchnorm_params" where
  "new_BatchNorm1d n =
     \<lparr>num_features = n, eps = 1 / 100000, momentum = 1 / 10,
      bn_weight = replicate n 1, bn_bias = replicate n 0,
      running_mean = replicate n 0, running_var = replicate n 1,
      num_batches_tracked = 0\<rparr>"

section \<open>KimNet\<close>

text \<open>
  Both classifiers inherit from \<^verbatim>\<open>nn.Module\<close>, whose \<^verbatim>\<open>training\<close> attribute is set for a
  module and all its layers together by \<^verbatim>\<open>train()\<close> and \<^verbatim>\<open>eval()\<close>, and is true after
  construction.
\<close>

record Module =
  training :: bool

record KimNet = Module +
  bins :: int
  marks :: int
  model :: "layer list"

definition KimNet_init :: "init_values \<Rightarrow> int \<Rightarrow> int \<Rightarrow> int \<Rightarrow> error + KimNet" where
  "KimNet_init w bins0 marks0 nb_cls =
     bind (new_Linear w (bins0 * marks0) 600) (\<lambda>(l1, w1).
     bind (new_Linear w1 600 500) (\<lambda>(l2, w2).
     bind (new_Linear w2 500 400) (\<lambda>(l3, w3).
     bind (new_Linear w3 400 nb_cls) (\<lambda>(l4, w4).
       Inr \<lparr>training = True, bins = bins0, marks = marks0,
            model = [Linear l1, Softplus, Linear l2, Softplus, Linear l3, Softplus,
                     Dropout (1 / 2), Linear l4, Softmax 1]\<rparr>))))"

definition KimNet_forward ::
    "KimNet \<Rightarrow> generator \<Rightarrow> tensor \<Rightarrow> tensor option \<Rightarrow> error + (tensor \<times> KimNet \<times> generator)" where
  "KimNet_forward self g histone_forward histone_reverse =
     bind (view histone_forward (bins self * marks self)) (\<lambda>v1.
     bind (sequential_forward (training self) (model self) g v1) (\<lambda>(o1, m1, g1).
       case histone_reverse of
         None \<Rightarrow> Inr (torch_log o1, self\<lparr>model := m1\<rparr>, g1)
       | Some r \<Rightarrow>
           bind (view r (bins self * marks self)) (\<lambda>v2.
           bind (sequential_forward (training self) m1 g1 v2) (\<lambda>(o2, m2, g2).
           bind (torch_add o1 o2) (\<lambda>s.
             Inr (torch_log (torch_div s 2), self\<lparr>model := m2\<rparr>, g2))))))"

section \<open>ConvNet\<close>

record ConvNet = Module +
  layer_one :: "layer list"
  layer_two :: "layer list"
  layer_three :: "layer list"
  layer_four :: "layer list"
  final_layer :: "layer list"

definition ConvNet_init :: "init_values \<Rightarrow> int \<Rightarrow> int \<Rightarrow> bool \<Rightarrow> error + ConvNet" where
  "ConvNet_init w marks0 nb_cls use_leakyrelu =
     (if \<not> nb_cls > 1 then Inl AssertionError
      else
        let act = (if use_leakyrelu then LeakyReLU else ReLU) in
        bind (new_Conv1d w marks0 32 7 3) (\<lambda>(c1, w1).
        bind (new_Conv1d w1 32 32 3 1) (\<lambda>(c2, w2).
        bind (new_Conv1d w2 32 64 3 1) (\<lambda>(c3, w3).
        bind (new_Conv1d w3 64 64 3 1) (\<lambda>(c4, w4).
        bind (new_Conv1d w4 64 nb_cls 1 0) (\<lambda>(c5, w5).
          Inr \<lparr>training = True,
               layer_one = [Conv1d c1, BatchNorm1d (new_BatchNorm1d 32), act],
               layer_two = [Conv1d c2, BatchNorm1d (new_BatchNorm1d 32), act, MaxPool1d 2 2],
               layer_three = [Conv1d c3, BatchNorm1d (new_BatchNorm1d 64), act],
               layer_four = [Conv1d c4, BatchNorm1d (new_BatchNorm1d 64), act, MaxPool1d 2 2],
               final_layer = [AdaptiveAvgPool1d 1, Conv1d c5, Softmax 1]\<rparr>))))))"

text \<open>The inner function \<^verbatim>\<open>_forward_prop\<close> of \<^verbatim>\<open>ConvNet.forward\<close>.\<close>

definition forward_prop :: "ConvNet \<Rightarrow> generator \<Rightarrow> tensor \<Rightarrow> error + (tensor \<times> ConvNet \<times> generator)" where
  "forward_prop self g x =
     bind (sequential_forward (training self) (layer_one self) g x) (\<lambda>(o1, l1, g1).
     bind (sequential_forward (training self) (layer_two self) g1 o1) (\<lambda>(o2, l2, g2).
     bind (sequential_forward (training self) (layer_three self) g2 o2) (\<lambda>(o3, l3, g3).
     bind (sequential_forward (training self) (layer_four self) g3 o3) (\<lambda>(o4, l4, g4).
     bind (sequential_forward (training self) (final_layer self) g4 o4) (\<lambda>(o5, l5, g5).
       Inr (o5, self\<lparr>layer_one := l1, layer_two := l2, layer_three := l3,
                      layer_four := l4, final_layer := l5\<rparr>, g5))))))"

definition ConvNet_forward ::
    "ConvNet \<Rightarrow> generator \<Rightarrow> tensor \<Rightarrow> tensor option \<Rightarrow> error + (tensor \<times> ConvNet \<times> generator)" where
  "ConvNet_forward self g histone_forward histone_reverse =
     bind (forward_prop self g histone_forward) (\<lambda>(o1, self1, g1).
       case histone_reverse of
         None \<Rightarrow> Inr (torch_squeeze (torch_log o1), self1, g1)
       | Some r \<Rightarrow>
           bind (forward_prop self1 g1 r) (\<lambda>(o2, self2, g2).
           bind (torch_add o1 o2) (\<lambda>s.
             Inr (torch_squeeze (torch_log (torch_div s 2)), self2, g2))))"

section \<open>init_weights\<close>

text \<open>
  \<^verbatim>\<open>nn.init.kaiming_uniform_(w, nonlinearity='relu')\<close> draws every element uniformly from
  \<open>[-bound, bound)\<close> with \<open>bound = sqrt 3 * (sqrt 2 / sqrt fan_in)\<close>, and
  \<^verbatim>\<open>nn.init.kaiming_normal_(w, nonlinearity='relu')\<close> draws it from the normal distribution
  of mean 0 and standard deviation \<open>sqrt 2 / sqrt fan_in\<close>; \<open>sqrt 2\<close> is the gain of the
  rectifier and \<open>fan_in\<close> the number of inputs of one output element. The draws are
  parameters: \<open>u n\<close> is the \<open>n\<close>-th sample of the uniform distribution on \<open>[0, 1)\<close>, and
  \<open>z n\<close> the \<open>n\<close>-th sample of the standard normal distribution.
\<close>

definition kaiming_uniform :: "nat \<Rightarrow> (nat \<Rightarrow> real) \<Rightarrow> nat \<Rightarrow> real" where
  "kaiming_uniform fan_in u n =
     (let bound = sqrt 3 * (sqrt 2 / sqrt (real fan_in)) in - bound + (bound - (- bound)) * u n)"

definition kaiming_normal :: "nat \<Rightarrow> (nat \<Rightarrow> real) \<Rightarrow> nat \<Rightarrow> real" where
  "kaiming_normal fan_in z n = 0 + (sqrt 2 / sqrt (real fan_in)) * z n"

definition zeros :: "real list \<Rightarrow> real list" where
  "zeros b = replicate (length b) 0"

text \<open>
  The function mutates the module it is given and returns nothing: the model returns the
  module as the call leaves it. A layer built without a bias has \<^verbatim>\<open>bias = None\<close>, on which
  \<^verbatim>\<open>m.bias.data\<close> raises.
\<close>

fun init_weights :: "(nat \<Rightarrow> real) \<Rightarrow> (nat \<Rightarrow> real) \<Rightarrow> layer \<Rightarrow> error + layer" where
  "init_weights u z (Conv1d c) =
     (let w = map (\<lambda>r. map (\<lambda>ci. map (\<lambda>j.
                  kaiming_uniform (in_channels c * kernel_size c) u
                    (r * in_channels c * kernel_size c + ci * kernel_size c + j))
                [0..<kernel_size c]) [0..<in_channels c]) [0..<out_channels c] in
      case conv_bias c of
        None \<Rightarrow> Inl AttributeError
      | Some b \<Rightarrow> Inr (Conv1d (c\<lparr>conv_weight := w, conv_bias := Some (zeros b)\<rparr>)))"
| "init_weights u z (Linear l) =
     (let w = map (\<lambda>r. map (\<lambda>j. kaiming_normal (in_features l) z (r * in_features l + j))
                [0..<in_features l]) [0..<out_features l] in
      case lin_bias l of
        None \<Rightarrow> Inl AttributeError
      | Some b \<Rightarrow> Inr (Linear (l\<lparr>lin_weight := w, lin_bias := Some (zeros b)\<rparr>)))"
| "init_weights u z m = Inr m"

section \<open>Notions used to state the properties\<close>

subsection \<open>Modules as the constructors leave them\<close>

text \<open>
  Training replaces the values of the parameters, never their shapes. A classifier is
  valid when its layers are those its constructor builds, with parameter tensors of the
  shapes the constructor allocates and arbitrary values in them.
\<close>

definition valid_linear :: "linear_params \<Rightarrow> nat \<Rightarrow> nat \<Rightarrow> bool" where
  "valid_linear l i m \<longleftrightarrow>
     in_features l = i \<and> out_features l = m \<and> length (lin_weight l) = m \<and>
     (\<forall>r\<in>set (lin_weight l). length r = i) \<and>
     (case lin_bias l of None \<Rightarrow> False | Some b \<Rightarrow> length b = m)"

definition valid_conv :: "conv1d_params \<Rightarrow> nat \<Rightarrow> nat \<Rightarrow> nat \<Rightarrow> nat \<Rightarrow> bool" where
  "valid_conv c i m k p \<longleftrightarrow>
     in_channels c = i \<and> out_channels c = m \<and> kernel_size c = k \<and> padding c = p \<and>
     length (conv_weight c) = m \<and>
     (\<forall>r\<in>set (conv_weight c). length r = i \<and> (\<forall>q\<in>set r. length q = k)) \<and>
     (case conv_bias c of None \<Rightarrow> False | Some b \<Rightarrow> length b = m)"

definition valid_bn :: "batchnorm_params \<Rightarrow> nat \<Rightarrow> bool" where
  "valid_bn b n \<longleftrightarrow>
     num_features b = n \<and> eps b = 1 / 100000 \<and> momentum b = 1 / 10 \<and>
     length (bn_weight b) = n \<and> length (bn_bias b) = n \<and>
     length (running_mean b) = n \<and> length (running_var b) = n"

definition KimNet_valid :: "KimNet \<Rightarrow> nat \<Rightarrow> bool" where
  "KimNet_valid self C \<longleftrightarrow>
     0 \<le> bins self * marks self \<and>
     (\<exists>l1 l2 l3 l4.
        model self = [Linear l1, Softplus, Linear l2, Softplus, Linear l3, Softplus,
                      Dropout (1 / 2), Linear l4, Softmax 1] \<and>
        valid_linear l1 (nat (bins self * marks self)) 600 \<and> valid_linear l2 600 500 \<and>
        valid_linear l3 500 400 \<and> valid_linear l4 400 C)"

definition ConvNet_valid :: "ConvNet \<Rightarrow> nat \<Rightarrow> nat \<Rightarrow> bool" where
  "ConvNet_valid self M C \<longleftrightarrow>
     2 \<le> C \<and>
     (\<exists>c1 c2 c3 c4 c5 b1 b2 b3 b4 act.
        (act = ReLU \<or> act = LeakyReLU) \<and>
        layer_one self = [Conv1d c1, BatchNorm1d b1, act] \<and>
        layer_two self = [Conv1d c2, BatchNorm1d b2, act, MaxPool1d 2 2] \<and>
        layer_three self = [Conv1d c3, BatchNorm1d b3, act] \<and>
        layer_four self = [Conv1d c4, BatchNorm1d b4, act, MaxPool1d 2 2] \<and>
        final_layer self = [AdaptiveAvgPool1d 1, Conv1d c5, Softmax 1] \<and>
        valid_conv c1 M 32 7 3 \<and> valid_conv c2 32 32 3 1 \<and> valid_conv c3 32 64 3 1 \<and>
        valid_conv c4 64 64 3 1 \<and> valid_conv c5 64 C 1 0 \<and>
        valid_bn b1 32 \<and> valid_bn b2 32 \<and> valid_bn b3 64 \<and> valid_bn b4 64)"

text \<open>The layers of the convolutional classifier in the order \<^verbatim>\<open>_forward_prop\<close> applies them.\<close>

definition all_layers :: "ConvNet \<Rightarrow> layer list" where
  "all_layers self =
     layer_one self @ layer_two self @ layer_three self @ layer_four self @ final_layer self"

subsection \<open>Shapes\<close>

text \<open>
  The shape a layer gives its output, or the error it raises, is a function of the shape
  of its input alone.
\<close>

fun layer_shape :: "bool \<Rightarrow> layer \<Rightarrow> nat list \<Rightarrow> error + nat list" where
  "layer_shape tr (Linear l) s =
     (if s = [] \<or> last s \<noteq> in_features l then Inl RuntimeError
      else Inr (butlast s @ [out_features l]))"
| "layer_shape tr (Softmax d) s = (if length s \<le> d then Inl IndexError else Inr s)"
| "layer_shape tr (Conv1d c) s =
     (case s of
        [N, C, L] \<Rightarrow>
          if C \<noteq> in_channels c \<or> L + 2 * padding c < kernel_size c then Inl RuntimeError
          else Inr [N, if C = 0 then 0 else out_channels c, L + 2 * padding c - kernel_size c + 1]
      | _ \<Rightarrow> Inl RuntimeError)"
| "layer_shape tr (BatchNorm1d b) s =
     (if length s \<noteq> 2 \<and> length s \<noteq> 3 then Inl ValueError
      else if tr \<and> s ! 0 * prod_list (drop 2 s) = 1 then Inl ValueError
      else if s ! 1 \<noteq> num_features b then Inl RuntimeError
      else Inr s)"
| "layer_shape tr (MaxPool1d k st) s =
     (case s of
        [N, C, L] \<Rightarrow>
          if k = 0 \<or> st = 0 \<or> L < k then Inl RuntimeError else Inr [N, C, (L - k) div st + 1]
      | _ \<Rightarrow> Inl RuntimeError)"
| "layer_shape tr (AdaptiveAvgPool1d n) s =
     (case s of
        [N, C, L] \<Rightarrow> if L = 0 then Inl RuntimeError else Inr [N, C, n]
      | _ \<Rightarrow> Inl RuntimeError)"
| "layer_shape tr m s = Inr s"

fun sequential_shape :: "bool \<Rightarrow> layer list \<Rightarrow> nat list \<Rightarrow> error + nat list" where
  "sequential_shape tr [] s = Inr s"
| "sequential_shape tr (m # ms) s = bind (layer_shape tr m s) (sequential_shape tr ms)"

definition out_shape :: "error + (tensor \<times> 'a) \<Rightarrow> error + nat list" where
  "out_shape r = map_sum id (\<lambda>(y, _). shape y) r"

subsection \<open>Tensors that can be viewed\<close>

text \<open>A tensor is contiguous when its strides are those of a tensor allocated for its
  shape, and it is compatible with a view when its strides allow a view of that shape.\<close>

definition contiguous :: "tensor \<Rightarrow> bool" where
  "contiguous t \<longleftrightarrow> strides t = contiguous_strides (shape t)"

definition view_compatible :: "tensor \<Rightarrow> nat list \<Rightarrow> bool" where
  "view_compatible t s \<longleftrightarrow> compute_stride (shape t) (strides t) s \<noteq> None"

subsection \<open>What a call returns, and what it leaves behind\<close>

text \<open>The output and the generator of a result, without the module.\<close>

definition out :: "error + (tensor \<times> 'a \<times> generator) \<Rightarrow> error + (tensor \<times> generator)" where
  "out r = map_sum id (\<lambda>(y, _, g). (y, g)) r"

text \<open>A layer without the buffers that batch normalisation writes in training mode.\<close>

fun forget_stats :: "layer \<Rightarrow> layer" where
  "forget_stats (BatchNorm1d b) =
     BatchNorm1d (b\<lparr>running_mean := [], running_var := [], num_batches_tracked := 0\<rparr>)"
| "forget_stats m = m"

text \<open>Layers that draw nothing from the generator, and a result with the generator replaced.\<close>

definition no_dropout :: "layer list \<Rightarrow> bool" where
  "no_dropout ms \<longleftrightarrow> (\<forall>m\<in>set ms. \<forall>p. m \<noteq> Dropout p)"

definition with_generator :: "generator \<Rightarrow> error + (tensor \<times> 'a \<times> generator) \<Rightarrow> error + (tensor \<times> 'a \<times> generator)" where
  "with_generator g r = map_sum id (\<lambda>(y, s, _). (y, s, g)) r"

subsection \<open>The pipeline of a classifier\<close>

text \<open>
  The probabilities a classifier computes for one strand, that is the output of its
  pipeline before the logarithm, with the generator as the pass leaves it; and the
  logarithm of the elementwise average of two such outputs.
\<close>

definition KimNet_probabilities :: "KimNet \<Rightarrow> generator \<Rightarrow> tensor \<Rightarrow> error + (tensor \<times> generator)" where
  "KimNet_probabilities self g x =
     out (bind (view x (bins self * marks self)) (sequential_forward (training self) (model self) g))"

definition ConvNet_probabilities :: "ConvNet \<Rightarrow> generator \<Rightarrow> tensor \<Rightarrow> error + (tensor \<times> generator)" where
  "ConvNet_probabilities self g x = out (forward_prop self g x)"

definition log_average :: "tensor \<Rightarrow> tensor \<Rightarrow> error + tensor" where
  "log_average p1 p2 = bind (torch_add p1 p2) (\<lambda>s. Inr (torch_log (torch_div s 2)))"

subsection \<open>Probability distributions along the class axis\<close>

text \<open>
  The elements of a tensor of shape \<open>(N, C)\<close> or \<open>(N, C, 1)\<close> form one probability
  distribution per sample when all are positive and every row of \<open>C\<close> sums to 1.
\<close>

definition is_distribution :: "nat \<Rightarrow> real list \<Rightarrow> bool" where
  "is_distribution C ps \<longleftrightarrow>
     (\<forall>k<length ps. 0 < ps ! k) \<and>
     (\<forall>n. n * C + C \<le> length ps \<longrightarrow> (\<Sum>c<C. ps ! (n * C + c)) = 1)"

definition average :: "real list \<Rightarrow> real list \<Rightarrow> real list" where
  "average ps qs = map (\<lambda>v. v / 2) (map2 (+) ps qs)"

subsection \<open>Concrete inputs\<close>

text \<open>
  An MLP classifier for one bin, one mark and two classes, in training mode. All its
  parameters are zero, except the weights of the first class in the last layer.
\<close>

definition zero_linear :: "nat \<Rightarrow> nat \<Rightarrow> linear_params" where
  "zero_linear i m =
     \<lparr>in_features = i, out_features = m, lin_weight = replicate m (replicate i 0),
      lin_bias = Some (replicate m 0)\<rparr>"

definition first_class_linear :: linear_params where
  "first_class_linear =
     \<lparr>in_features = 400, out_features = 2,
      lin_weight = [replicate 400 1, replicate 400 0], lin_bias = Some [0, 0]\<rparr>"

definition example_KimNet :: KimNet where
  "example_KimNet =
     \<lparr>training = True, bins = 1, marks = 1,
      model = [Linear (zero_linear 1 600), Softplus, Linear (zero_linear 600 500), Softplus,
               Linear (zero_linear 500 400), Softplus, Dropout (1 / 2),
               Linear first_class_linear, Softmax 1]\<rparr>"

text \<open>A convolution with zero parameters, a tensor of zeros, and the uniform distribution
  over two classes for one sample.\<close>

definition zero_conv :: "nat \<Rightarrow> nat \<Rightarrow> nat \<Rightarrow> nat \<Rightarrow> conv1d_params" where
  "zero_conv i m k p =
     \<lparr>in_channels = i, out_channels = m, kernel_size = k, padding = p,
      conv_weight = replicate m (replicate i (replicate k 0)),
      conv_bias = Some (replicate m 0)\<rparr>"

definition zeros_tensor :: "nat list \<Rightarrow> tensor" where
  "zeros_tensor s = tensor_of s (replicate (prod_list s) 0)"

definition half_tensor :: tensor where
  "half_tensor = tensor_of [1, 2] [1 / 2, 1 / 2]"

text \<open>
  An MLP classifier for two bins, three marks and two classes, with the parameters of
  the one above, and a batch for it that is not contiguous: four samples of zeros
  allocated in the shape \<open>(4, 3, 2)\<close>, marks before bins, and transposed to the shape
  \<open>(4, 2, 3)\<close>, which exchanges the strides of the two dimensions.
\<close>

definition wide_KimNet :: KimNet where
  "wide_KimNet =
     \<lparr>training = True, bins = 2, marks = 3,
      model = [Linear (zero_linear 6 600), Softplus, Linear (zero_linear 600 500), Softplus,
               Linear (zero_linear 500 400), Softplus, Dropout (1 / 2),
               Linear first_class_linear, Softmax 1]\<rparr>"

definition transposed_batch :: tensor where
  "transposed_batch = \<lparr>shape = [4, 2, 3], data = replicate 24 0, strides = [6, 1, 2]\<rparr>"

text \<open>Two generators: one keeps every element, one keeps the first \<open>n\<close> it is asked
  for. A stream that yields the same value for ever.\<close>

definition keep_all :: generator where
  "keep_all = (\<lambda>k. True)"

definition keep_first :: "nat \<Rightarrow> generator" where
  "keep_first n = (\<lambda>k. k < n)"

definition const_stream :: "real \<Rightarrow> nat \<Rightarrow> real" where
  "const_stream v n = v"

section \<open>Properties of the layers\<close>

subsection \<open>Sequencing\<close>

lemma bind_Inl [simp]: "bind (Inl e) f = Inl e"
  by (simp add: bind_def)

lemma bind_Inr [simp]: "bind (Inr v) f = f v"
  by (simp add: bind_def)

lemma bind_eq_Inr: "bind r f = Inr y \<longleftrightarrow> (\<exists>v. r = Inr v \<and> f v = Inr y)"
  by (cases r) simp_all

subsection \<open>Tensors allocated for a result\<close>

lemma tensor_of_simps [simp]:
  "shape (tensor_of s d) = s" "data (tensor_of s d) = d"
  "strides (tensor_of s d) = contiguous_strides s"
  by (simp_all add: tensor_of_def)

lemma tensor_of_eq [simp]: "tensor_of s d = tensor_of s' d' \<longleftrightarrow> s = s' \<and> d = d'"
  by (auto simp: tensor_of_def)

lemma wf_tensor_of [simp]: "wf_tensor (tensor_of s d) \<longleftrightarrow> length d = prod_list s"
  by (simp add: wf_tensor_def)

lemma contiguous_tensor_of [simp]: "contiguous (tensor_of s d)"
  by (simp add: contiguous_def)

subsection \<open>The shape of the output\<close>

lemma out_shape_simps [simp]:
  "out_shape (Inl e) = Inl e" "out_shape (Inr (y, z)) = Inr (shape y)"
  by (simp_all add: out_shape_def)

lemma layer_forward_shape: "out_shape (layer_forward tr m g x) = layer_shape tr m (shape x)"
proof (cases m)
  case (Linear l)
  then show ?thesis by (simp add: linear_forward_def Let_def)
next
  case (Dropout p)
  then show ?thesis by (simp add: dropout_forward_def)
next
  case (Softmax d)
  then show ?thesis by (simp add: softmax_forward_def Let_def)
next
  case (Conv1d c)
  then show ?thesis by (simp add: conv1d_forward_def Let_def split: list.splits)
next
  case (BatchNorm1d b)
  then show ?thesis by (simp add: batchnorm_forward_def normalise_def Let_def)
next
  case (MaxPool1d k st)
  then show ?thesis by (simp add: maxpool1d_forward_def Let_def split: list.splits)
next
  case (AdaptiveAvgPool1d n)
  then show ?thesis by (simp add: adaptive_avgpool1d_forward_def Let_def split: list.splits)
qed (simp_all add: map_tensor_def)

lemma sequential_forward_shape:
  "out_shape (sequential_forward tr ms g x) = sequential_shape tr ms (shape x)"
proof (induction ms arbitrary: g x)
  case Nil
  show ?case by simp
next
  case (Cons m ms)
  show ?case
  proof (cases "layer_forward tr m g x")
    case (Inl e)
    then have "layer_shape tr m (shape x) = Inl e"
      using layer_forward_shape [of tr m g x, symmetric] by simp
    with Inl show ?thesis by simp
  next
    case (Inr v)
    obtain y m' g' where v: "v = (y, m', g')" by (cases v)
    from Inr v have s: "layer_shape tr m (shape x) = Inr (shape y)"
      using layer_forward_shape [of tr m g x, symmetric] by simp
    show ?thesis
    proof (cases "sequential_forward tr ms g' y")
      case (Inl e)
      with Cons.IH [of g' y] Inr v s show ?thesis by simp
    next
      case (Inr w)
      obtain z ms' g'' where w: "w = (z, ms', g'')" by (cases w)
      from Inr w Cons.IH [of g' y] \<open>layer_forward tr m g x = Inr v\<close> v s show ?thesis by simp
    qed
  qed
qed

subsection \<open>Well-formed tensors\<close>

lemma linear_forward_wf: "linear_forward l x = Inr y \<Longrightarrow> wf_tensor y"
  by (auto simp: linear_forward_def Let_def wf_tensor_def split: if_splits)

lemma conv1d_forward_wf: "conv1d_forward c x = Inr y \<Longrightarrow> wf_tensor y"
  unfolding conv1d_forward_def Let_def
  by (auto simp: wf_tensor_def algebra_simps split: list.splits if_splits)

lemma maxpool1d_forward_wf: "maxpool1d_forward k st x = Inr y \<Longrightarrow> wf_tensor y"
  unfolding maxpool1d_forward_def Let_def
  by (auto simp: wf_tensor_def algebra_simps split: list.splits if_splits)

lemma adaptive_avgpool1d_forward_wf: "adaptive_avgpool1d_forward n x = Inr y \<Longrightarrow> wf_tensor y"
  unfolding adaptive_avgpool1d_forward_def Let_def
  by (auto simp: wf_tensor_def algebra_simps split: list.splits if_splits)

lemma softmax_forward_wf: "wf_tensor x \<Longrightarrow> softmax_forward d x = Inr y \<Longrightarrow> wf_tensor y"
  by (auto simp: softmax_forward_def Let_def wf_tensor_def split: if_splits)

lemma batchnorm_forward_wf:
  "wf_tensor x \<Longrightarrow> batchnorm_forward tr b x = Inr (y, b') \<Longrightarrow> wf_tensor y"
  by (auto simp: batchnorm_forward_def normalise_def Let_def wf_tensor_def split: if_splits)

lemma dropout_forward_wf: "wf_tensor x \<Longrightarrow> dropout_forward p tr g x = (y, g') \<Longrightarrow> wf_tensor y"
  by (auto simp: dropout_forward_def wf_tensor_def split: if_splits)

lemma map_tensor_wf [simp]: "wf_tensor (map_tensor f x) = wf_tensor x"
  by (simp add: map_tensor_def wf_tensor_def)

lemma layer_forward_wf:
  assumes "wf_tensor x" "layer_forward tr m g x = Inr (y, m', g')"
  shows "wf_tensor y"
proof (cases m)
  case (Linear l)
  with assms show ?thesis by (auto simp: bind_eq_Inr dest: linear_forward_wf)
next
  case (Dropout p)
  with assms show ?thesis by (auto split: prod.splits dest: dropout_forward_wf)
next
  case (Softmax d)
  with assms show ?thesis by (auto simp: bind_eq_Inr dest: softmax_forward_wf)
next
  case (Conv1d c)
  with assms show ?thesis by (auto simp: bind_eq_Inr dest: conv1d_forward_wf)
next
  case (BatchNorm1d b)
  with assms show ?thesis by (auto simp: bind_eq_Inr dest: batchnorm_forward_wf)
next
  case (MaxPool1d k st)
  with assms show ?thesis by (auto simp: bind_eq_Inr dest: maxpool1d_forward_wf)
next
  case (AdaptiveAvgPool1d n)
  with assms show ?thesis by (auto simp: bind_eq_Inr dest: adaptive_avgpool1d_forward_wf)
qed (use assms in auto)

lemma sequential_forward_wf:
  "wf_tensor x \<Longrightarrow> sequential_forward tr ms g x = Inr (y, ms', g') \<Longrightarrow> wf_tensor y"
proof (induction ms arbitrary: g x ms')
  case Nil
  then show ?case by simp
next
  case (Cons m ms)
  from Cons.prems(2) obtain y1 m1 g1 ms1
    where 1: "layer_forward tr m g x = Inr (y1, m1, g1)"
      and 2: "sequential_forward tr ms g1 y1 = Inr (y, ms1, g')"
    by (auto simp: bind_eq_Inr)
  from layer_forward_wf [OF Cons.prems(1) 1] have "wf_tensor y1" .
  from Cons.IH [OF this 2] show ?case .
qed

subsection \<open>The buffers do not change what a module computes\<close>

lemma out_simps [simp]: "out (Inl e) = Inl e" "out (Inr (y, s, g)) = Inr (y, g)"
  by (simp_all add: out_def)

lemma out_eq_Inr: "out r = Inr (y, g) \<longleftrightarrow> (\<exists>s. r = Inr (y, s, g))"
  by (cases r) (auto simp: out_def)

lemma out_eq_Inl: "out r = Inl e \<longleftrightarrow> r = Inl e"
  by (cases r) (auto simp: out_def)

lemma batchnorm_forward_stats:
  assumes "batchnorm_forward tr b x = Inr (y, b')"
  shows "forget_stats (BatchNorm1d b') = forget_stats (BatchNorm1d b) \<and> (\<not> tr \<longrightarrow> b' = b)"
  using assms by (auto simp: batchnorm_forward_def Let_def split: if_splits)

lemma layer_forward_stats:
  assumes "layer_forward tr m g x = Inr (y, m', g')"
  shows "forget_stats m' = forget_stats m \<and> (\<not> tr \<longrightarrow> m' = m)"
proof (cases m)
  case (BatchNorm1d b)
  with assms obtain b' where "batchnorm_forward tr b x = Inr (y, b')" "m' = BatchNorm1d b'"
    by (auto simp: bind_eq_Inr)
  with batchnorm_forward_stats [of tr b x y b'] BatchNorm1d show ?thesis by simp
qed (use assms in \<open>auto simp: bind_eq_Inr split: prod.splits\<close>)

lemma sequential_forward_stats:
  "sequential_forward tr ms g x = Inr (y, ms', g') \<Longrightarrow>
   map forget_stats ms' = map forget_stats ms \<and> (\<not> tr \<longrightarrow> ms' = ms)"
proof (induction ms arbitrary: g x ms')
  case Nil
  then show ?case by simp
next
  case (Cons m ms)
  from Cons.prems obtain y1 m1 g1 ms1
    where 1: "layer_forward tr m g x = Inr (y1, m1, g1)"
      and 2: "sequential_forward tr ms g1 y1 = Inr (y, ms1, g')" and 3: "ms' = m1 # ms1"
    by (auto simp: bind_eq_Inr)
  from layer_forward_stats [OF 1] Cons.IH [OF 2] 3 show ?case by simp
qed

lemma batchnorm_forward_training_cong:
  assumes "forget_stats (BatchNorm1d b1) = forget_stats (BatchNorm1d b2)"
  shows "map_sum id fst (batchnorm_forward True b1 x) = map_sum id fst (batchnorm_forward True b2 x)"
proof -
  from assms have "num_features b1 = num_features b2" "eps b1 = eps b2"
    "bn_weight b1 = bn_weight b2" "bn_bias b1 = bn_bias b2"
    by (cases b1; cases b2; simp)+
  then show ?thesis
    by (simp add: batchnorm_forward_def normalise_def Let_def)
qed

lemma layer_forward_training_cong:
  assumes "forget_stats m1 = forget_stats m2"
  shows "out (layer_forward True m1 g x) = out (layer_forward True m2 g x)"
proof (cases m1)
  case (BatchNorm1d b1)
  with assms obtain b2 where m2: "m2 = BatchNorm1d b2" by (cases m2) auto
  from batchnorm_forward_training_cong [of b1 b2 x] assms BatchNorm1d m2
  have "map_sum id fst (batchnorm_forward True b1 x) = map_sum id fst (batchnorm_forward True b2 x)"
    by simp
  then show ?thesis unfolding BatchNorm1d m2
    by (cases "batchnorm_forward True b1 x"; cases "batchnorm_forward True b2 x") auto
qed (use assms in \<open>cases m2; auto\<close>)+

lemma sequential_forward_training_cong:
  "map forget_stats ms1 = map forget_stats ms2 \<Longrightarrow>
   out (sequential_forward True ms1 g x) = out (sequential_forward True ms2 g x)"
proof (induction ms1 arbitrary: ms2 g x)
  case Nil
  then show ?case by simp
next
  case (Cons m1 ms1)
  then obtain m2 ms2' where ms2: "ms2 = m2 # ms2'" and m: "forget_stats m1 = forget_stats m2"
    and ms: "map forget_stats ms1 = map forget_stats ms2'"
    by (cases ms2) auto
  note L = layer_forward_training_cong [OF m, of g x]
  show ?case
  proof (cases "layer_forward True m1 g x")
    case (Inl e)
    with L have "out (layer_forward True m2 g x) = Inl e" by simp
    then have "layer_forward True m2 g x = Inl e" by (simp add: out_eq_Inl)
    with Inl ms2 show ?thesis by simp
  next
    case (Inr v)
    obtain y a g1 where v: "v = (y, a, g1)" by (cases v)
    with Inr L have "out (layer_forward True m2 g x) = Inr (y, g1)" by simp
    then obtain b where 2: "layer_forward True m2 g x = Inr (y, b, g1)"
      by (auto simp: out_eq_Inr)
    note IH = Cons.IH [OF ms, of g1 y]
    show ?thesis
    proof (cases "sequential_forward True ms1 g1 y")
      case (Inl e)
      with IH have "out (sequential_forward True ms2' g1 y) = Inl e" by simp
      then have "sequential_forward True ms2' g1 y = Inl e" by (simp add: out_eq_Inl)
      with Inl Inr v 2 ms2 show ?thesis by simp
    next
      case (Inr w)
      obtain z c g2 where w: "w = (z, c, g2)" by (cases w)
      with Inr IH have "out (sequential_forward True ms2' g1 y) = Inr (z, g2)" by simp
      then obtain d where "sequential_forward True ms2' g1 y = Inr (z, d, g2)"
        by (auto simp: out_eq_Inr)
      with Inr w \<open>layer_forward True m1 g x = Inr v\<close> v 2 ms2 show ?thesis by simp
    qed
  qed
qed

lemma sequential_forward_again:
  assumes "sequential_forward tr ms g x = Inr (y, ms', g')"
  shows "out (sequential_forward tr ms' g2 x2) = out (sequential_forward tr ms g2 x2)"
proof (cases tr)
  case True
  from sequential_forward_stats [OF assms]
  have "map forget_stats ms' = map forget_stats ms" by simp
  from sequential_forward_training_cong [OF this] True show ?thesis by simp
next
  case False
  with sequential_forward_stats [OF assms] show ?thesis by simp
qed

subsection \<open>Softmax yields a distribution\<close>

lemma sequential_forward_append:
  "sequential_forward tr (as @ bs) g x =
     bind (sequential_forward tr as g x) (\<lambda>(y, as', g').
       bind (sequential_forward tr bs g' y) (\<lambda>(z, bs', g''). Inr (z, as' @ bs', g'')))"
proof (induction as arbitrary: g x)
  case Nil
  show ?case by (cases "sequential_forward tr bs g x") auto
next
  case (Cons m as)
  show ?case
  proof (cases "layer_forward tr m g x")
    case (Inl e)
    then show ?thesis by simp
  next
    case (Inr v)
    obtain y m' g' where v: "v = (y, m', g')" by (cases v)
    show ?thesis
    proof (cases "sequential_forward tr as g' y")
      case (Inl e)
      with Inr v Cons.IH [of g' y] show ?thesis by simp
    next
      case (Inr w)
      obtain z as' g'' where w: "w = (z, as', g'')" by (cases w)
      show ?thesis
        using Inr w \<open>layer_forward tr m g x = Inr v\<close> v Cons.IH [of g' y]
        by (cases "sequential_forward tr bs g'' z") auto
    qed
  qed
qed

lemma sum_list_upt_sum: "sum_list (map f [0..<n]) = (\<Sum>c<n. f c)"
  by (simp add: interv_sum_list_conv_sum_set_nat atLeast0LessThan)

lemma exp_sum_pos: "0 < (C::nat) \<Longrightarrow> 0 < (\<Sum>c<C. exp (f c :: real))"
  by (rule sum_pos) auto

lemma softmax_forward_nth:
  assumes "softmax_forward 1 x = Inr y" "shape x = [N, C] \<or> shape x = [N, C, 1]"
    and "k < length (data x)"
  shows "data y ! k = exp (data x ! k) / (\<Sum>c<C. exp (data x ! ((k div C) * C + c)))"
  using assms
  by (auto simp: softmax_forward_def Let_def sum_list_upt_sum split: if_splits)

lemma softmax_forward_length:
  "softmax_forward d x = Inr y \<Longrightarrow> length (data y) = length (data x) \<and> shape y = shape x"
  by (auto simp: softmax_forward_def Let_def split: if_splits)

lemma softmax_forward_distribution:
  assumes sm: "softmax_forward 1 x = Inr y" and sh: "shape x = [N, C] \<or> shape x = [N, C, 1]"
    and C: "0 < C"
  shows "is_distribution C (data y)"
  unfolding is_distribution_def
proof (intro conjI allI impI)
  fix k assume "k < length (data y)"
  with softmax_forward_length [OF sm] have k: "k < length (data x)" by simp
  show "0 < data y ! k"
    unfolding softmax_forward_nth [OF sm sh k]
    by (intro divide_pos_pos exp_gt_zero exp_sum_pos C)
next
  fix n assume "n * C + C \<le> length (data y)"
  with softmax_forward_length [OF sm] have n: "n * C + C \<le> length (data x)" by simp
  let ?S = "\<Sum>c<C. exp (data x ! (n * C + c))"
  have pos: "0 < ?S" by (rule exp_sum_pos [OF C])
  have "(\<Sum>c<C. data y ! (n * C + c)) = (\<Sum>c<C. exp (data x ! (n * C + c)) / ?S)"
  proof (rule sum.cong [OF refl])
    fix c assume "c \<in> {..<C}"
    then have c: "c < C" by simp
    with n have k: "n * C + c < length (data x)" by simp
    from c have "(n * C + c) div C = n" by simp
    with softmax_forward_nth [OF sm sh k]
    show "data y ! (n * C + c) = exp (data x ! (n * C + c)) / ?S" by simp
  qed
  also have "\<dots> = ?S / ?S" by (rule sum_divide_distrib [symmetric])
  also from pos have "\<dots> = 1" by simp
  finally show "(\<Sum>c<C. data y ! (n * C + c)) = 1" .
qed

subsection \<open>Addition of tensors of one shape\<close>

lemma broadcast_shapes_same [simp]: "broadcast_shapes s s = Some s"
  by (induction s) (simp_all add: broadcast_dim_def)

lemma concat_slices: "concat (map (\<lambda>i. slice i k zs) [0..<a]) = take (a * k) zs"
proof (induction a)
  case 0
  show ?case by simp
next
  case (Suc a)
  have "Suc a * k = a * k + k" by simp
  then have "take (Suc a * k) zs = take (a * k) zs @ take k (drop (a * k) zs)"
    by (simp only: take_add)
  with Suc show ?case by (simp add: slice_def)
qed

lemma slice_map2: "slice i k (map2 f xs ys) = map2 f (slice i k xs) (slice i k ys)"
  by (simp add: slice_def take_map drop_map take_zip drop_zip)

lemma length_slice: "length xs = a * k \<Longrightarrow> i < a \<Longrightarrow> length (slice i k xs) = k"
proof -
  assume l: "length xs = a * k" and i: "i < a"
  then have "Suc i \<le> a" by simp
  then have "Suc i * k \<le> a * k" by (rule mult_le_mono1)
  then have "k \<le> a * k - i * k" by simp
  with l show ?thesis by (simp add: slice_def)
qed

lemma broadcast_data_same:
  "length xs = prod_list s \<Longrightarrow> length ys = prod_list s \<Longrightarrow>
   broadcast_data f s s xs ys = map2 f xs ys"
proof (induction s arbitrary: xs ys)
  case Nil
  show ?case by simp
next
  case (Cons a s)
  let ?k = "prod_list s"
  have eq: "map (\<lambda>i. broadcast_data f s s (slice (if a = 1 then 0 else i) ?k xs)
                      (slice (if a = 1 then 0 else i) ?k ys)) [0..<a]
      = map (\<lambda>i. slice i ?k (map2 f xs ys)) [0..<a]"
  proof (rule map_cong [OF refl])
    fix i assume "i \<in> set [0..<a]"
    then have i: "i < a" by simp
    then have e: "(if a = 1 then 0 else i) = i" by simp
    from Cons.prems have "length xs = a * ?k" "length ys = a * ?k" by simp_all
    with i have "length (slice i ?k xs) = ?k" "length (slice i ?k ys) = ?k"
      by (blast intro: length_slice)+
    from Cons.IH [OF this] show "broadcast_data f s s (slice (if a = 1 then 0 else i) ?k xs)
        (slice (if a = 1 then 0 else i) ?k ys) = slice i ?k (map2 f xs ys)"
      unfolding e by (simp add: slice_map2)
  qed
  have "broadcast_data f (a # s) (a # s) xs ys =
      concat (map (\<lambda>i. broadcast_data f s s (slice (if a = 1 then 0 else i) ?k xs)
                      (slice (if a = 1 then 0 else i) ?k ys)) [0..<a])"
    by (cases "a = 1") simp_all
  also have "\<dots> = take (a * ?k) (map2 f xs ys)"
    unfolding eq by (rule concat_slices)
  finally show ?case using Cons.prems by simp
qed

lemma torch_add_same:
  assumes "wf_tensor x" "wf_tensor y" "shape y = shape x"
  shows "torch_add x y = Inr (tensor_of (shape x) (map2 (+) (data x) (data y)))"
  using assms
  by (simp add: torch_add_def pad_shape_def wf_tensor_def broadcast_data_same)

subsection \<open>Views of contiguous tensors\<close>

lemma contiguous_strides_length [simp]: "length (contiguous_strides s) = length s"
  by (induction s) simp_all

lemma contiguous_strides_last: "s \<noteq> [] \<Longrightarrow> last (contiguous_strides s) = 1"
proof (induction s)
  case Nil
  then show ?case by simp
next
  case (Cons d ds)
  show ?case
  proof (cases ds)
    case Nil
    then show ?thesis by simp
  next
    case (Cons e es)
    with Cons.IH have "last (contiguous_strides (e # es)) = 1" by simp
    then show ?thesis unfolding Cons by (simp del: One_nat_def)
  qed
qed

lemma max_one_pos: "0 < (d::nat) \<Longrightarrow> max 1 d = d"
  by linarith

lemma prod_list_max:
  "\<forall>d\<in>set ds. 0 < d \<Longrightarrow> prod_list (map (max 1) ds) = prod_list (ds::nat list)"
proof (induction ds)
  case Nil
  show ?case by simp
next
  case (Cons d ds)
  from Cons.prems have d: "0 < d" and ds: "\<forall>d\<in>set ds. 0 < d" by simp_all
  from max_one_pos [OF d] Cons.IH [OF ds] show ?case by (simp only: list.map prod_list.Cons)
qed

text \<open>The dimensions of a contiguous tensor form one chunk.\<close>

lemma chunks_contiguous:
  assumes "\<forall>d\<in>set ds. 0 < d" and "d0 = 1 \<or> st0 = prod_list ds"
  shows "chunks (rev (zip ds (contiguous_strides ds)) @ (d0, st0) # rest) 1 1 vs ns
           = chunks ((d0, st0) # rest) 1 (prod_list ds) vs ns"
  using assms
proof (induction ds arbitrary: d0 st0 rest)
  case Nil
  show ?case by simp
next
  case (Cons d ds)
  from Cons.prems(1) have pos: "\<forall>d\<in>set ds. 0 < d" by simp
  from prod_list_max [OF pos] have P: "prod_list (map (max 1) ds) = prod_list ds" .
  have "rev (zip (d # ds) (contiguous_strides (d # ds))) @ (d0, st0) # rest
      = rev (zip ds (contiguous_strides ds)) @ (d, prod_list ds) # (d0, st0) # rest"
    by (simp only: contiguous_strides.simps P zip_Cons_Cons rev.simps append_assoc append.simps)
  then have "chunks (rev (zip (d # ds) (contiguous_strides (d # ds))) @ (d0, st0) # rest) 1 1 vs ns
      = chunks (rev (zip ds (contiguous_strides ds)) @ (d, prod_list ds) # (d0, st0) # rest) 1 1 vs ns"
    by (simp only:)
  also have "\<dots> = chunks ((d, prod_list ds) # (d0, st0) # rest) 1 (prod_list ds) vs ns"
    by (rule Cons.IH [OF pos]) simp
  also have "\<dots> = chunks ((d0, st0) # rest) 1 (prod_list (d # ds)) vs ns"
    using Cons.prems(2) by (auto simp: Let_def mult.commute)
  finally show ?case .
qed

lemma fill_view_rows:
  assumes "0 < N * k"
  shows "fill_view 1 (N * k) 1 [k, N] [] = (N * k, [], [k, 1])"
proof -
  from assms have N: "0 < N" and k: "0 < k" by simp_all
  have 1: "1 < N * k \<or> k = 1"
  proof (cases "k = 1")
    case False
    with k have "1 < k" by simp
    with N show ?thesis by (simp add: less_le_trans)
  qed simp
  have 2: "k < N * k \<or> N = 1"
  proof (cases "N = 1")
    case False
    with N have "1 < N" by simp
    with k show ?thesis by simp
  qed simp
  from 1 2 show ?thesis by (auto simp: mult.commute)
qed

lemma compute_stride_contiguous:
  assumes n: "prod_list s = N * k" and k: "0 < k"
  shows "compute_stride s (contiguous_strides s) [N, k] = Some [k, 1]"
proof (cases "s = []")
  case True
  with n have "k = 1" by simp
  with True show ?thesis by (simp add: compute_stride_def numeral_2_eq_2)
next
  case ne: False
  show ?thesis
  proof (cases "prod_list s = 0")
    case True
    with ne k show ?thesis by (auto simp: compute_stride_def max_def)
  next
    case False
    then have pos: "\<forall>d\<in>set s. 0 < d" by (metis gr0I prod_list_zero_iff)
    from ne obtain d0 ds where s: "s = d0 # ds" by (cases s) auto
    from pos s have pds: "\<forall>d\<in>set ds. 0 < d" by simp
    let ?z = "rev (zip s (contiguous_strides s))"
    from ne have "zip s (contiguous_strides s) \<noteq> []" by (cases s) auto
    then obtain d st rest where z: "?z = (d, st) # rest" by (cases ?z) auto
    then have "(d, st) = last (zip s (contiguous_strides s))"
      by (metis last_rev list.sel(1) rev_rev_ident hd_rev)
    moreover from ne have "contiguous_strides s \<noteq> []" by (cases s) simp_all
    with ne have "last (zip s (contiguous_strides s)) = (last s, 1)"
      by (simp add: last_zip contiguous_strides_last)
    ultimately have st: "st = 1" by simp
    from n False have nk: "0 < N * k" by simp
    have z_eq: "?z = rev (zip ds (contiguous_strides ds)) @ (d0, prod_list ds) # []"
      by (simp only: s contiguous_strides.simps zip_Cons_Cons rev.simps prod_list_max [OF pds])
    have "chunks ?z 1 1 [k, N] [] = chunks [(d0, prod_list ds)] 1 (prod_list ds) [k, N] []"
      unfolding z_eq by (rule chunks_contiguous [OF pds]) simp
    also have "\<dots> = Some [k, 1]"
    proof -
      from n s have tn: "prod_list ds * d0 = N * k" by (simp add: mult.commute)
      show ?thesis
        by (simp only: chunks.simps Let_def list.case tn fill_view_rows [OF nk] prod.case
              simp_thms if_True if_False)
    qed
    finally have "chunks ?z 1 1 [k, N] [] = Some [k, 1]" .
    with z st ne False show ?thesis by (simp add: compute_stride_def)
  qed
qed

lemma contiguous_view_compatible:
  assumes "contiguous x" "numel x = N * k" "0 < k"
  shows "view_compatible x [N, k]"
  using assms compute_stride_contiguous [of "shape x" N k]
  by (simp add: view_compatible_def contiguous_def numel_def)

lemma view_contiguous:
  assumes c: "contiguous x" and k: "0 < k" and n: "numel x = N * nat k"
  shows "view x k = Inr (tensor_of [N, nat k] (data x))"
proof -
  from k have k': "0 < nat k" by simp
  from k n have d: "numel x div nat k = N" "numel x mod nat k = 0" by simp_all
  from n have "prod_list (shape x) = N * nat k" by (simp add: numel_def)
  from compute_stride_contiguous [OF this k'] c
  have "compute_stride (shape x) (strides x) [N, nat k] = Some [nat k, 1]"
    by (simp add: contiguous_def)
  moreover from max_one_pos [OF k'] have "contiguous_strides [N, nat k] = [nat k, 1]"
    by (simp only: contiguous_strides.simps list.map prod_list.Cons prod_list.Nil mult_1_right)
  ultimately show ?thesis using k d by (simp add: view_def tensor_of_def)
qed

lemma zeros_tensor_contiguous [simp]: "contiguous (zeros_tensor s)"
  by (simp add: zeros_tensor_def)

subsection \<open>The pipeline of KimNet\<close>

lemma out_shape_eq_Inr: "out_shape r = Inr s \<longleftrightarrow> (\<exists>y z. r = Inr (y, z) \<and> shape y = s)"
  by (cases r) (auto simp: out_shape_def)

lemma KimNet_shape:
  assumes "KimNet_valid self C"
  shows "sequential_shape tr (model self) [N, nat (bins self * marks self)] = Inr [N, C]"
  using assms by (auto simp: KimNet_valid_def valid_linear_def)

lemma sequential_softmax_last:
  assumes run: "sequential_forward tr (ms @ [Softmax 1]) g x = Inr (y, ms', g')"
    and sh: "shape y = [N, C] \<or> shape y = [N, C, 1]" and C: "0 < C"
  shows "is_distribution C (data y)"
proof -
  from run obtain z where z: "softmax_forward 1 z = Inr y"
    by (auto simp: sequential_forward_append bind_eq_Inr)
  from softmax_forward_length [OF z] sh have "shape z = [N, C] \<or> shape z = [N, C, 1]" by simp
  from softmax_forward_distribution [OF z this C] show ?thesis .
qed

lemma KimNet_model_forward:
  assumes v: "KimNet_valid self C" and sh: "shape x = [N, nat (bins self * marks self)]"
    and wf: "wf_tensor x"
  shows "\<exists>y ms' g'. sequential_forward (training self) (model self) g x = Inr (y, ms', g') \<and>
           shape y = [N, C] \<and> wf_tensor y \<and> (0 < C \<longrightarrow> is_distribution C (data y))"
proof -
  from KimNet_shape [OF v, of "training self" N] sh
  have "out_shape (sequential_forward (training self) (model self) g x) = Inr [N, C]"
    by (simp add: sequential_forward_shape)
  then obtain y ms' g' where
    run: "sequential_forward (training self) (model self) g x = Inr (y, ms', g')"
    and y: "shape y = [N, C]"
    by (auto simp: out_shape_eq_Inr)
  from v obtain front where "model self = front @ [Softmax 1]"
    by (auto simp: KimNet_valid_def)
  with run y sequential_softmax_last [of "training self" front g x y ms' g' N C]
  have "0 < C \<longrightarrow> is_distribution C (data y)" by simp
  with run y sequential_forward_wf [OF wf run] show ?thesis by blast
qed

lemma view_ok:
  assumes "0 < k" "wf_tensor x" "numel x = N * nat k" "view_compatible x [N, nat k]"
  shows "\<exists>v. view x k = Inr v \<and> shape v = [N, nat k] \<and> data v = data x \<and> wf_tensor v"
proof -
  from assms(1,3) have d: "numel x div nat k = N" "numel x mod nat k = 0" by simp_all
  from assms(4) obtain st where "compute_stride (shape x) (strides x) [N, nat k] = Some st"
    by (auto simp: view_compatible_def)
  with assms(1) d have "view x k = Inr \<lparr>shape = [N, nat k], data = data x, strides = st\<rparr>"
    by (simp add: view_def)
  moreover from assms(2,3) have "wf_tensor \<lparr>shape = [N, nat k], data = data x, strides = st\<rparr>"
    by (simp add: wf_tensor_def numel_def)
  ultimately show ?thesis by simp
qed

lemma idx_bound: "n < N \<Longrightarrow> c < C \<Longrightarrow> n * C + c < N * (C::nat)"
proof -
  assume "n < N" "c < C"
  then have "Suc n \<le> N" by simp
  then have "Suc n * C \<le> N * C" by (rule mult_le_mono1)
  moreover from \<open>c < C\<close> have "n * C + c < Suc n * C" by simp
  ultimately show ?thesis by simp
qed

lemma row_bound: "n < N \<Longrightarrow> n * C + C \<le> N * (C::nat)"
proof -
  assume "n < N"
  then have "Suc n \<le> N" by simp
  then have "Suc n * C \<le> N * C" by (rule mult_le_mono1)
  then show ?thesis by (simp add: add.commute)
qed

lemma log_rows:
  assumes d: "is_distribution C ps" and len: "length ps = N * C" and n: "n < N"
  shows "(\<Sum>c<C. exp (map ln ps ! (n * C + c))) = 1"
proof -
  have "(\<Sum>c<C. exp (map ln ps ! (n * C + c))) = (\<Sum>c<C. ps ! (n * C + c))"
  proof (rule sum.cong [OF refl])
    fix c assume "c \<in> {..<C}"
    with n len have k: "n * C + c < length ps" by (simp add: idx_bound)
    with d have "0 < ps ! (n * C + c)" by (simp add: is_distribution_def)
    with k show "exp (map ln ps ! (n * C + c)) = ps ! (n * C + c)" by simp
  qed
  also from d row_bound [OF n, of C] len have "\<dots> = 1" by (simp add: is_distribution_def)
  finally show ?thesis .
qed

lemma average_distribution:
  assumes p: "is_distribution C ps" and q: "is_distribution C qs" and len: "length qs = length ps"
  shows "is_distribution C (average ps qs)"
  unfolding is_distribution_def
proof (intro conjI allI impI)
  fix k assume "k < length (average ps qs)"
  with len have k: "k < length ps" "k < length qs" by (simp_all add: average_def)
  with p q have "0 < ps ! k" "0 < qs ! k" by (simp_all add: is_distribution_def)
  with k show "0 < average ps qs ! k" by (simp add: average_def)
next
  fix n assume "n * C + C \<le> length (average ps qs)"
  with len have n: "n * C + C \<le> length ps" "n * C + C \<le> length qs" by (simp_all add: average_def)
  have "(\<Sum>c<C. average ps qs ! (n * C + c)) = (\<Sum>c<C. (ps ! (n * C + c) + qs ! (n * C + c)) / 2)"
  proof (rule sum.cong [OF refl])
    fix c assume "c \<in> {..<C}"
    with n have "n * C + c < length ps" "n * C + c < length qs" by simp_all
    then show "average ps qs ! (n * C + c) = (ps ! (n * C + c) + qs ! (n * C + c)) / 2"
      by (simp add: average_def)
  qed
  also have "\<dots> = (\<Sum>c<C. ps ! (n * C + c) + qs ! (n * C + c)) / 2"
    by (rule sum_divide_distrib [symmetric])
  also have "\<dots> = ((\<Sum>c<C. ps ! (n * C + c)) + (\<Sum>c<C. qs ! (n * C + c))) / 2"
    by (simp only: sum.distrib)
  also from p q n have "\<dots> = 1" by (simp add: is_distribution_def)
  finally show "(\<Sum>c<C. average ps qs ! (n * C + c)) = 1" .
qed

lemma torch_log_simps [simp]:
  "shape (torch_log t) = shape t" "data (torch_log t) = map ln (data t)"
  "wf_tensor (torch_log t) = wf_tensor t"
  by (simp_all add: torch_log_def map_tensor_def wf_tensor_def)

lemma torch_div_simps [simp]:
  "shape (torch_div t c) = shape t" "data (torch_div t c) = map (\<lambda>v. v / c) (data t)"
  "wf_tensor (torch_div t c) = wf_tensor t"
  by (simp_all add: torch_div_def map_tensor_def wf_tensor_def)

lemma torch_squeeze_simps [simp]:
  "shape (torch_squeeze t) = filter (\<lambda>d. d \<noteq> 1) (shape t)" "data (torch_squeeze t) = data t"
  by (simp_all add: torch_squeeze_def)

lemma KimNet_pass:
  assumes v: "KimNet_valid self C" and k: "0 < bins self * marks self"
    and x: "wf_tensor x" "numel x = N * nat (bins self * marks self)"
      "view_compatible x [N, nat (bins self * marks self)]"
  shows "\<exists>v1 o1 m1 g1.
           view x (bins self * marks self) = Inr v1 \<and>
           sequential_forward (training self) (model self) g v1 = Inr (o1, m1, g1) \<and>
           shape o1 = [N, C] \<and> wf_tensor o1 \<and> (0 < C \<longrightarrow> is_distribution C (data o1))"
proof -
  from view_ok [OF k x] obtain v1 where v1: "view x (bins self * marks self) = Inr v1"
    "shape v1 = [N, nat (bins self * marks self)]" "wf_tensor v1" by blast
  from KimNet_model_forward [OF v v1(2,3), of g] v1(1) show ?thesis by blast
qed

lemma KimNet_forward_None:
  assumes v: "KimNet_valid self C" and k: "0 < bins self * marks self"
    and x: "wf_tensor x" "numel x = N * nat (bins self * marks self)"
      "view_compatible x [N, nat (bins self * marks self)]"
  shows "\<exists>o1 self' g'. KimNet_forward self g x None = Inr (torch_log o1, self', g') \<and>
           shape o1 = [N, C] \<and> wf_tensor o1 \<and> (0 < C \<longrightarrow> is_distribution C (data o1))"
proof -
  from KimNet_pass [OF v k x, of g] obtain v1 o1 m1 g1 where
    "view x (bins self * marks self) = Inr v1"
    "sequential_forward (training self) (model self) g v1 = Inr (o1, m1, g1)"
    and o1: "shape o1 = [N, C]" "wf_tensor o1" "0 < C \<longrightarrow> is_distribution C (data o1)"
    by blast
  then have "KimNet_forward self g x None = Inr (torch_log o1, self\<lparr>model := m1\<rparr>, g1)"
    by (simp add: KimNet_forward_def)
  with o1 show ?thesis by blast
qed

lemma KimNet_forward_Some:
  assumes v: "KimNet_valid self C" and k: "0 < bins self * marks self"
    and x: "wf_tensor x" "numel x = N * nat (bins self * marks self)"
      "view_compatible x [N, nat (bins self * marks self)]"
    and y: "wf_tensor y" "numel y = N2 * nat (bins self * marks self)"
      "view_compatible y [N2, nat (bins self * marks self)]"
  shows "\<exists>o1 o2.
           map_sum id fst (KimNet_forward self g x (Some y)) =
             bind (torch_add o1 o2) (\<lambda>s. Inr (torch_log (torch_div s 2))) \<and>
           shape o1 = [N, C] \<and> wf_tensor o1 \<and> (0 < C \<longrightarrow> is_distribution C (data o1)) \<and>
           shape o2 = [N2, C] \<and> wf_tensor o2 \<and> (0 < C \<longrightarrow> is_distribution C (data o2))"
proof -
  let ?k = "bins self * marks self"
  let ?tr = "training self"
  from KimNet_pass [OF v k x, of g] obtain v1 o1 m1 g1 where
    v1: "view x ?k = Inr v1"
    and run1: "sequential_forward ?tr (model self) g v1 = Inr (o1, m1, g1)"
    and o1: "shape o1 = [N, C]" "wf_tensor o1" "0 < C \<longrightarrow> is_distribution C (data o1)"
    by blast
  from KimNet_pass [OF v k y, of g1] obtain v2 o2 m2 g2 where
    v2: "view y ?k = Inr v2"
    and run2: "sequential_forward ?tr (model self) g1 v2 = Inr (o2, m2, g2)"
    and o2: "shape o2 = [N2, C]" "wf_tensor o2" "0 < C \<longrightarrow> is_distribution C (data o2)"
    by blast
  from sequential_forward_again [OF run1, of g1 v2] run2
  have "out (sequential_forward ?tr m1 g1 v2) = Inr (o2, g2)" by simp
  then obtain m2' where run2': "sequential_forward ?tr m1 g1 v2 = Inr (o2, m2', g2)"
    by (auto simp: out_eq_Inr)
  have "map_sum id fst (KimNet_forward self g x (Some y)) =
      bind (torch_add o1 o2) (\<lambda>s. Inr (torch_log (torch_div s 2)))"
    using v1 run1 v2 run2'
    by (cases "torch_add o1 o2") (simp_all add: KimNet_forward_def)
  with o1 o2 show ?thesis by blast
qed


subsection \<open>Two batches of different sizes\<close>

lemma torch_add_2d:
  assumes "shape o1 = [a, c]" "shape o2 = [b, c]"
  shows "map_sum id shape (torch_add o1 o2) =
           (case broadcast_dim a b of None \<Rightarrow> Inl RuntimeError | Some d \<Rightarrow> Inr [d, c])"
  using assms
  by (auto simp: torch_add_def pad_shape_def broadcast_dim_def split: option.splits)

lemma numel_div:
  assumes "0 < (k::nat)" "n mod k = 0" shows "n = (n div k) * k"
  using assms by auto

lemma broadcast_batch:
  assumes k: "0 < (k::nat)" and x: "nx mod k = 0" and y: "ny mod k = 0"
    and c: "ny = nx \<or> ny = k \<or> nx = k"
  shows "broadcast_dim (nx div k) (ny div k) = Some ((if nx = k then ny else nx) div k)"
proof (cases "nx = k")
  case True
  with k show ?thesis by (simp add: broadcast_dim_def)
next
  case False
  with c have "ny = nx \<or> ny = k" by simp
  then show ?thesis
  proof
    assume "ny = nx"
    with False show ?thesis by (simp add: broadcast_dim_def)
  next
    assume "ny = k"
    with False k show ?thesis by (simp add: broadcast_dim_def)
  qed
qed

subsection \<open>Constructors\<close>

lemma new_Linear_valid:
  "0 \<le> i \<Longrightarrow> 0 \<le> m \<Longrightarrow>
   \<exists>l w'. new_Linear w i m = Inr (l, w') \<and> valid_linear l (nat i) (nat m)"
  by (auto simp: new_Linear_def valid_linear_def)

lemma new_Linear_Inr:
  "new_Linear w i m = Inr (l, w') \<Longrightarrow> 0 \<le> i \<and> 0 \<le> m \<and> valid_linear l (nat i) (nat m)"
  by (auto simp: new_Linear_def valid_linear_def split: if_splits)

lemma new_Conv1d_valid:
  "0 \<le> i \<Longrightarrow> 0 \<le> m \<Longrightarrow>
   \<exists>c w'. new_Conv1d w i m k p = Inr (c, w') \<and> valid_conv c (nat i) (nat m) k p"
  by (auto simp: new_Conv1d_def valid_conv_def)

lemma new_BatchNorm1d_valid: "valid_bn (new_BatchNorm1d n) n"
  by (simp add: new_BatchNorm1d_def valid_bn_def)

lemma KimNet_init_Inr:
  assumes "KimNet_init w bins0 marks0 nb_cls = Inr self"
  shows "0 \<le> nb_cls \<and> KimNet_valid self (nat nb_cls) \<and> bins self = bins0 \<and> marks self = marks0
           \<and> training self"
proof -
  from assms obtain l1 w1 l2 w2 l3 w3 l4 w4 where
    1: "new_Linear w (bins0 * marks0) 600 = Inr (l1, w1)" and
    2: "new_Linear w1 600 500 = Inr (l2, w2)" and
    3: "new_Linear w2 500 400 = Inr (l3, w3)" and
    4: "new_Linear w3 400 nb_cls = Inr (l4, w4)" and
    s: "self = \<lparr>training = True, bins = bins0, marks = marks0,
            model = [Linear l1, Softplus, Linear l2, Softplus, Linear l3, Softplus,
                     Dropout (1 / 2), Linear l4, Softmax 1]\<rparr>"
    by (auto simp: KimNet_init_def bind_eq_Inr)
  from new_Linear_Inr [OF 1] new_Linear_Inr [OF 2] new_Linear_Inr [OF 3] new_Linear_Inr [OF 4] s
  show ?thesis by (simp add: KimNet_valid_def)
qed

lemma KimNet_init_total:
  assumes "0 \<le> bins0 * marks0" "0 \<le> nb_cls"
  shows "\<exists>self. KimNet_init w bins0 marks0 nb_cls = Inr self"
proof -
  from new_Linear_valid [OF assms(1), of 600 w] obtain l1 w1 where
    1: "new_Linear w (bins0 * marks0) 600 = Inr (l1, w1)" by auto
  from new_Linear_valid [of 600 500 w1] obtain l2 w2 where
    2: "new_Linear w1 600 500 = Inr (l2, w2)" by auto
  from new_Linear_valid [of 500 400 w2] obtain l3 w3 where
    3: "new_Linear w2 500 400 = Inr (l3, w3)" by auto
  from new_Linear_valid [OF _ assms(2), of 400 w3] obtain l4 w4 where
    4: "new_Linear w3 400 nb_cls = Inr (l4, w4)" by auto
  from 1 2 3 4 show ?thesis by (simp add: KimNet_init_def)
qed

lemma ConvNet_init_total:
  assumes n: "1 < nb_cls" and m: "0 \<le> marks0"
  shows "\<exists>self. ConvNet_init w marks0 nb_cls leaky = Inr self \<and>
           ConvNet_valid self (nat marks0) (nat nb_cls) \<and> training self"
proof -
  from new_Conv1d_valid [OF m, of 32 w 7 3] obtain c1 w1 where
    1: "new_Conv1d w marks0 32 7 3 = Inr (c1, w1)" "valid_conv c1 (nat marks0) 32 7 3" by auto
  from new_Conv1d_valid [of 32 32 w1 3 1] obtain c2 w2 where
    2: "new_Conv1d w1 32 32 3 1 = Inr (c2, w2)" "valid_conv c2 32 32 3 1" by auto
  from new_Conv1d_valid [of 32 64 w2 3 1] obtain c3 w3 where
    3: "new_Conv1d w2 32 64 3 1 = Inr (c3, w3)" "valid_conv c3 32 64 3 1" by auto
  from new_Conv1d_valid [of 64 64 w3 3 1] obtain c4 w4 where
    4: "new_Conv1d w3 64 64 3 1 = Inr (c4, w4)" "valid_conv c4 64 64 3 1" by auto
  from n new_Conv1d_valid [of 64 nb_cls w4 1 0] obtain c5 w5 where
    5: "new_Conv1d w4 64 nb_cls 1 0 = Inr (c5, w5)" "valid_conv c5 64 (nat nb_cls) 1 0" by auto
  from n have C: "2 \<le> nat nb_cls" by simp
  show ?thesis
    using n 1 2 3 4 5 C
    by (cases leaky) (simp_all add: ConvNet_init_def ConvNet_valid_def new_BatchNorm1d_valid)
qed

subsection \<open>He initialisation\<close>

lemma kaiming_uniform_eq:
  "kaiming_uniform fan u n = - sqrt (6 / real fan) + 2 * sqrt (6 / real fan) * u n"
proof -
  have "sqrt 3 * (sqrt 2 / sqrt (real fan)) = sqrt (6 / real fan)"
    by (simp add: real_sqrt_divide real_sqrt_mult [symmetric])
  then show ?thesis by (simp add: kaiming_uniform_def Let_def)
qed

lemma kaiming_uniform_bounds:
  assumes "0 \<le> u n" "u n < 1"
  shows "- sqrt (6 / real fan) \<le> kaiming_uniform fan u n"
    and "kaiming_uniform fan u n \<le> sqrt (6 / real fan)"
proof -
  let ?B = "sqrt (6 / real fan)"
  have B: "0 \<le> ?B" by simp
  from assms B have "0 \<le> 2 * ?B * u n" by simp
  then show "- ?B \<le> kaiming_uniform fan u n" by (simp add: kaiming_uniform_eq)
  from assms have "u n \<le> 1" by simp
  then have "?B * u n \<le> ?B * 1" using B by (rule mult_left_mono)
  then show "kaiming_uniform fan u n \<le> ?B" by (simp add: kaiming_uniform_eq)
qed

lemma kaiming_normal_eq: "kaiming_normal fan z n = sqrt (2 / real fan) * z n"
  by (simp add: kaiming_normal_def real_sqrt_divide)

subsection \<open>The pipeline of ConvNet\<close>

lemma forward_prop_Inr:
  assumes "forward_prop self g x = Inr (y, self', g')"
  shows "training self' = training self \<and>
         sequential_forward (training self) (all_layers self) g x = Inr (y, all_layers self', g')"
proof -
  let ?tr = "training self"
  from assms obtain o1 l1 g1 o2 l2 g2 o3 l3 g3 o4 l4 g4 l5 where
    1: "sequential_forward ?tr (layer_one self) g x = Inr (o1, l1, g1)" and
    2: "sequential_forward ?tr (layer_two self) g1 o1 = Inr (o2, l2, g2)" and
    3: "sequential_forward ?tr (layer_three self) g2 o2 = Inr (o3, l3, g3)" and
    4: "sequential_forward ?tr (layer_four self) g3 o3 = Inr (o4, l4, g4)" and
    5: "sequential_forward ?tr (final_layer self) g4 o4 = Inr (y, l5, g')" and
    s: "self' = self\<lparr>layer_one := l1, layer_two := l2, layer_three := l3,
                      layer_four := l4, final_layer := l5\<rparr>"
    unfolding forward_prop_def by (auto simp: bind_eq_Inr)
  from 1 2 3 4 5 s show ?thesis
    by (simp add: all_layers_def sequential_forward_append)
qed

lemma forward_prop_Inl:
  assumes "forward_prop self g x = Inl e"
  shows "sequential_forward (training self) (all_layers self) g x = Inl e"
proof -
  let ?tr = "training self"
  show ?thesis
  proof (cases "sequential_forward ?tr (layer_one self) g x")
    case (Inl a)
    with assms show ?thesis by (simp add: forward_prop_def all_layers_def sequential_forward_append)
  next
    case 1: (Inr v1)
    obtain o1 l1 g1 where v1: "v1 = (o1, l1, g1)" by (cases v1)
    show ?thesis
    proof (cases "sequential_forward ?tr (layer_two self) g1 o1")
      case (Inl a)
      with assms 1 v1 show ?thesis
        by (simp add: forward_prop_def all_layers_def sequential_forward_append)
    next
      case 2: (Inr v2)
      obtain o2 l2 g2 where v2: "v2 = (o2, l2, g2)" by (cases v2)
      show ?thesis
      proof (cases "sequential_forward ?tr (layer_three self) g2 o2")
        case (Inl a)
        with assms 1 v1 2 v2 show ?thesis
          by (simp add: forward_prop_def all_layers_def sequential_forward_append)
      next
        case 3: (Inr v3)
        obtain o3 l3 g3 where v3: "v3 = (o3, l3, g3)" by (cases v3)
        show ?thesis
        proof (cases "sequential_forward ?tr (layer_four self) g3 o3")
          case (Inl a)
          with assms 1 v1 2 v2 3 v3 show ?thesis
            by (simp add: forward_prop_def all_layers_def sequential_forward_append)
        next
          case 4: (Inr v4)
          obtain o4 l4 g4 where v4: "v4 = (o4, l4, g4)" by (cases v4)
          show ?thesis
          proof (cases "sequential_forward ?tr (final_layer self) g4 o4")
            case (Inl a)
            with assms 1 v1 2 v2 3 v3 4 v4 show ?thesis
              by (simp add: forward_prop_def all_layers_def sequential_forward_append)
          next
            case 5: (Inr v5)
            obtain o5 l5 g5 where v5: "v5 = (o5, l5, g5)" by (cases v5)
            with assms 1 v1 2 v2 3 v3 4 v4 5 show ?thesis
              by (simp add: forward_prop_def)
          qed
        qed
      qed
    qed
  qed
qed

lemma forward_prop_out:
  "out (forward_prop self g x) = out (sequential_forward (training self) (all_layers self) g x)"
proof (cases "forward_prop self g x")
  case (Inl e)
  with forward_prop_Inl [OF Inl] show ?thesis by simp
next
  case (Inr v)
  obtain y self' g' where "v = (y, self', g')" by (cases v)
  with Inr forward_prop_Inr [of self g x y self' g'] show ?thesis by simp
qed

lemma forward_prop_again:
  assumes "forward_prop self g x = Inr (y, self', g')"
  shows "out (forward_prop self' g2 x2) = out (forward_prop self g2 x2)"
proof -
  from forward_prop_Inr [OF assms] have t: "training self' = training self"
    and r: "sequential_forward (training self) (all_layers self) g x = Inr (y, all_layers self', g')"
    by simp_all
  from sequential_forward_again [OF r, of g2 x2] t show ?thesis
    by (simp add: forward_prop_out)
qed

lemma forward_prop_wf:
  "wf_tensor x \<Longrightarrow> forward_prop self g x = Inr (y, self', g') \<Longrightarrow> wf_tensor y"
  using forward_prop_Inr [of self g x y self' g'] sequential_forward_wf by blast

lemma sequential_shape_append:
  "sequential_shape tr (as @ bs) s = bind (sequential_shape tr as s) (sequential_shape tr bs)"
proof (induction as arbitrary: s)
  case Nil
  show ?case by simp
next
  case (Cons m as)
  then show ?case by (cases "layer_shape tr m s") simp_all
qed

lemma prod_ne_1: "2 \<le> (l::nat) \<Longrightarrow> n * l \<noteq> 1"
  by (cases n) auto

lemma block_shape:
  assumes "valid_conv c i m k p" "valid_bn b m" "act = ReLU \<or> act = LeakyReLU"
    and "k \<le> L + 2 * p" "2 \<le> L + 2 * p - k + 1" and "0 < i"
  shows "sequential_shape tr [Conv1d c, BatchNorm1d b, act] [N, i, L] = Inr [N, m, L + 2 * p - k + 1]"
proof -
  let ?L = "L + 2 * p - k + 1"
  from assms(5) have "N * ?L \<noteq> 1" by (rule prod_ne_1)
  then have bn: "layer_shape tr (BatchNorm1d b) [N, m, ?L] = Inr [N, m, ?L]"
    using assms(2) by (simp add: valid_bn_def)
  from assms(1,4,6) have cv: "layer_shape tr (Conv1d c) [N, i, L] = Inr [N, m, ?L]"
    by (simp add: valid_conv_def)
  from assms(3) have ac: "layer_shape tr act [N, m, ?L] = Inr [N, m, ?L]" by auto
  from cv bn ac show ?thesis by simp
qed

lemma pool_shape:
  assumes "2 \<le> L"
  shows "layer_shape tr (MaxPool1d 2 2) [N, m, L] = Inr [N, m, L div 2]"
proof -
  from assms have "(L - 2) div 2 + 1 = L div 2" by presburger
  with assms show ?thesis by simp
qed

lemma block_pool_shape:
  assumes "valid_conv c i m k p" "valid_bn b m" "act = ReLU \<or> act = LeakyReLU"
    and "k \<le> L + 2 * p" "2 \<le> L + 2 * p - k + 1" and "0 < i"
  shows "sequential_shape tr [Conv1d c, BatchNorm1d b, act, MaxPool1d 2 2] [N, i, L]
           = Inr [N, m, (L + 2 * p - k + 1) div 2]"
proof -
  have "[Conv1d c, BatchNorm1d b, act, MaxPool1d 2 2] = [Conv1d c, BatchNorm1d b, act] @ [MaxPool1d 2 2]"
    by simp
  then have "sequential_shape tr [Conv1d c, BatchNorm1d b, act, MaxPool1d 2 2] [N, i, L]
      = bind (sequential_shape tr [Conv1d c, BatchNorm1d b, act] [N, i, L])
          (sequential_shape tr [MaxPool1d 2 2])"
    by (simp only: sequential_shape_append)
  also have "\<dots> = sequential_shape tr [MaxPool1d 2 2] [N, m, L + 2 * p - k + 1]"
    by (simp only: block_shape [OF assms] bind_Inr)
  also have "\<dots> = Inr [N, m, (L + 2 * p - k + 1) div 2]"
    using pool_shape [OF assms(5), of tr N m] by simp
  finally show ?thesis .
qed

lemma head_shape:
  assumes "valid_conv c 64 C 1 0" "1 \<le> L"
  shows "sequential_shape tr [AdaptiveAvgPool1d 1, Conv1d c, Softmax 1] [N, 64, L] = Inr [N, C, 1]"
  using assms by (simp add: valid_conv_def)

lemma ConvNet_shape_ok:
  assumes v: "ConvNet_valid self M C" and L: "4 \<le> L" and M: "0 < M"
  shows "sequential_shape tr (all_layers self) [N, M, L] = Inr [N, C, 1]"
proof -
  from v obtain c1 c2 c3 c4 c5 b1 b2 b3 b4 act where
    act: "act = ReLU \<or> act = LeakyReLU" and
    l1: "layer_one self = [Conv1d c1, BatchNorm1d b1, act]" and
    l2: "layer_two self = [Conv1d c2, BatchNorm1d b2, act, MaxPool1d 2 2]" and
    l3: "layer_three self = [Conv1d c3, BatchNorm1d b3, act]" and
    l4: "layer_four self = [Conv1d c4, BatchNorm1d b4, act, MaxPool1d 2 2]" and
    l5: "final_layer self = [AdaptiveAvgPool1d 1, Conv1d c5, Softmax 1]" and
    c: "valid_conv c1 M 32 7 3" "valid_conv c2 32 32 3 1" "valid_conv c3 32 64 3 1"
       "valid_conv c4 64 64 3 1" "valid_conv c5 64 C 1 0" and
    b: "valid_bn b1 32" "valid_bn b2 32" "valid_bn b3 64" "valid_bn b4 64"
    unfolding ConvNet_valid_def by blast
  from L have L2: "2 \<le> L div 2" and L4: "1 \<le> L div 2 div 2" by presburger+
  from L M have s1: "sequential_shape tr (layer_one self) [N, M, L] = Inr [N, 32, L]"
    using block_shape [OF c(1) b(1) act, of L tr N] by (simp add: l1)
  from L have s2: "sequential_shape tr (layer_two self) [N, 32, L] = Inr [N, 32, L div 2]"
    using block_pool_shape [OF c(2) b(2) act, of L tr N] by (simp add: l2)
  from L2 have s3: "sequential_shape tr (layer_three self) [N, 32, L div 2] = Inr [N, 64, L div 2]"
    using block_shape [OF c(3) b(3) act, of "L div 2" tr N] by (simp add: l3)
  from L2 have s4: "sequential_shape tr (layer_four self) [N, 64, L div 2] = Inr [N, 64, L div 2 div 2]"
    using block_pool_shape [OF c(4) b(4) act, of "L div 2" tr N] by (simp add: l4)
  have s5: "sequential_shape tr (final_layer self) [N, 64, L div 2 div 2] = Inr [N, C, 1]"
    using head_shape [OF c(5) L4, of tr N] by (simp only: l5)
  show ?thesis
    by (simp only: all_layers_def sequential_shape_append s1 s2 s3 s4 s5 bind_Inr)
qed

lemma pool_short: "L < 2 \<Longrightarrow> layer_shape tr (MaxPool1d 2 2) [N, m, L] = Inl RuntimeError"
  by simp

text \<open>A block of the classifier refuses an input without channels: the convolution
  returns an output without channels, which the batch normalisation refuses.\<close>

lemma block_Inr:
  assumes "sequential_shape tr [Conv1d c, BatchNorm1d b, act] [N, i, L] = Inr s"
    and "valid_conv c i m k p" "act = ReLU \<or> act = LeakyReLU" and "valid_bn b m" "0 < m"
  shows "s = [N, m, L + 2 * p - k + 1] \<and> k \<le> L + 2 * p \<and> 0 < i"
  using assms
  by (auto simp: valid_conv_def valid_bn_def bind_eq_Inr split: if_splits)

lemma block_pool_Inr:
  assumes "sequential_shape tr [Conv1d c, BatchNorm1d b, act, MaxPool1d 2 2] [N, i, L] = Inr s"
    and "valid_conv c i m k p" "act = ReLU \<or> act = LeakyReLU" and "valid_bn b m" "0 < m"
  shows "s = [N, m, (L + 2 * p - k + 1) div 2] \<and> 2 \<le> L + 2 * p - k + 1"
proof -
  have "[Conv1d c, BatchNorm1d b, act, MaxPool1d 2 2] = [Conv1d c, BatchNorm1d b, act] @ [MaxPool1d 2 2]"
    by simp
  with assms(1) obtain s1 where
    1: "sequential_shape tr [Conv1d c, BatchNorm1d b, act] [N, i, L] = Inr s1" and
    2: "sequential_shape tr [MaxPool1d 2 2] s1 = Inr s"
    by (auto simp only: sequential_shape_append bind_eq_Inr)
  from block_Inr [OF 1 assms(2,3,4,5)] have s1: "s1 = [N, m, L + 2 * p - k + 1]" by simp
  show ?thesis
  proof (cases "2 \<le> L + 2 * p - k + 1")
    case True
    from pool_shape [OF True, of tr N m] 2 s1 True show ?thesis by simp
  next
    case False
    then have "L + 2 * p - k + 1 < 2" by simp
    from pool_short [OF this, of tr N m] 2 s1 show ?thesis by simp
  qed
qed

lemma ConvNet_shape_Inr:
  assumes v: "ConvNet_valid self M C"
    and r: "sequential_shape tr (all_layers self) [N, M, L] = Inr s"
  shows "4 \<le> L \<and> 0 < M"
proof -
  from v obtain c1 c2 c3 c4 c5 b1 b2 b3 b4 act where
    act: "act = ReLU \<or> act = LeakyReLU" and
    l1: "layer_one self = [Conv1d c1, BatchNorm1d b1, act]" and
    l2: "layer_two self = [Conv1d c2, BatchNorm1d b2, act, MaxPool1d 2 2]" and
    l3: "layer_three self = [Conv1d c3, BatchNorm1d b3, act]" and
    l4: "layer_four self = [Conv1d c4, BatchNorm1d b4, act, MaxPool1d 2 2]" and
    c: "valid_conv c1 M 32 7 3" "valid_conv c2 32 32 3 1" "valid_conv c3 32 64 3 1"
       "valid_conv c4 64 64 3 1" and
    b: "valid_bn b1 32" "valid_bn b2 32" "valid_bn b3 64" "valid_bn b4 64"
    unfolding ConvNet_valid_def by blast
  from r obtain s1 s2 s3 s4 where
    1: "sequential_shape tr (layer_one self) [N, M, L] = Inr s1" and
    2: "sequential_shape tr (layer_two self) s1 = Inr s2" and
    3: "sequential_shape tr (layer_three self) s2 = Inr s3" and
    4: "sequential_shape tr (layer_four self) s3 = Inr s4"
    by (auto simp only: all_layers_def sequential_shape_append bind_eq_Inr)
  from block_Inr [OF 1 [unfolded l1] c(1) act b(1)] have s1: "s1 = [N, 32, L]" and M: "0 < M"
    by auto
  from block_pool_Inr [OF 2 [unfolded l2 s1] c(2) act b(2)] have s2: "s2 = [N, 32, L div 2]"
    by auto
  from block_Inr [OF 3 [unfolded l3 s2] c(3) act b(3)] have s3: "s3 = [N, 64, L div 2]" by auto
  from block_pool_Inr [OF 4 [unfolded l4 s3] c(4) act b(4)] have "2 \<le> L div 2" by auto
  then have "4 \<le> L" by presburger
  with M show ?thesis by simp
qed

lemma ConvNet_pass:
  assumes v: "ConvNet_valid self M C" and sh: "shape x = [N, M, L]" and wf: "wf_tensor x"
    and L: "4 \<le> L" and M: "0 < M"
  shows "\<exists>o1 self1 g1. forward_prop self g x = Inr (o1, self1, g1) \<and>
           shape o1 = [N, C, 1] \<and> wf_tensor o1 \<and> is_distribution C (data o1)"
proof -
  let ?tr = "training self"
  from ConvNet_shape_ok [OF v L M, of ?tr N] sh
  have "out_shape (sequential_forward ?tr (all_layers self) g x) = Inr [N, C, 1]"
    by (simp add: sequential_forward_shape)
  then obtain y ms' g' where
    run: "sequential_forward ?tr (all_layers self) g x = Inr (y, ms', g')"
    and y: "shape y = [N, C, 1]"
    by (auto simp: out_shape_eq_Inr)
  from v obtain front where "all_layers self = front @ [Softmax 1]"
    by (auto simp: ConvNet_valid_def all_layers_def)
  moreover from v have "0 < C" by (simp add: ConvNet_valid_def)
  ultimately have d: "is_distribution C (data y)"
    using run y sequential_softmax_last [of ?tr front g x y ms' g' N C] by simp
  from run have "out (forward_prop self g x) = Inr (y, g')" by (simp add: forward_prop_out)
  then obtain self1 where "forward_prop self g x = Inr (y, self1, g')"
    by (auto simp: out_eq_Inr)
  with y d sequential_forward_wf [OF wf run] show ?thesis by blast
qed

lemma ConvNet_pass_Inr:
  assumes v: "ConvNet_valid self M C" and sh: "shape x = [N, M, L]"
    and r: "out (forward_prop self g x) = Inr (o1, g1)"
  shows "4 \<le> L \<and> 0 < M"
proof -
  from r have "out (sequential_forward (training self) (all_layers self) g x) = Inr (o1, g1)"
    by (simp add: forward_prop_out)
  then obtain ms where "sequential_forward (training self) (all_layers self) g x = Inr (o1, ms, g1)"
    by (auto simp: out_eq_Inr)
  then have "out_shape (sequential_forward (training self) (all_layers self) g x) = Inr (shape o1)"
    by simp
  with sh have "sequential_shape (training self) (all_layers self) [N, M, L] = Inr (shape o1)"
    by (simp add: sequential_forward_shape)
  from ConvNet_shape_Inr [OF v this] show ?thesis .
qed

lemma log_average_same_shape:
  assumes sh: "shape o2 = shape o1" and wf: "wf_tensor o1" "wf_tensor o2"
    and d: "is_distribution C (data o1)" "is_distribution C (data o2)"
  shows "\<exists>s. torch_add o1 o2 = Inr s \<and> shape s = shape o1 \<and> length (data s) = length (data o1) \<and>
           data (torch_log (torch_div s 2)) = map ln (average (data o1) (data o2)) \<and>
           is_distribution C (average (data o1) (data o2))"
proof -
  from sh wf have len: "length (data o2) = length (data o1)" by (simp add: wf_tensor_def)
  from torch_add_same [OF wf sh]
  have "torch_add o1 o2 = Inr (tensor_of (shape o1) (map2 (+) (data o1) (data o2)))" .
  moreover from average_distribution [OF d len]
  have "is_distribution C (average (data o1) (data o2))" .
  ultimately show ?thesis using len by (simp add: average_def)
qed

lemma squeeze_shape:
  "2 \<le> (C::nat) \<Longrightarrow> filter (\<lambda>d. d \<noteq> 1) [N, C, 1] = (if N = 1 then [C] else [N, C])"
  by auto

lemma ConvNet_forward_Some_eq:
  assumes 1: "forward_prop self g x = Inr (o1, self1, g1)"
    and 2: "out (forward_prop self g1 y) = Inr (o2, g2)"
  shows "map_sum id fst (ConvNet_forward self g x (Some y)) =
           bind (torch_add o1 o2) (\<lambda>s. Inr (torch_squeeze (torch_log (torch_div s 2))))"
proof -
  from forward_prop_again [OF 1, of g1 y] 2
  have "out (forward_prop self1 g1 y) = Inr (o2, g2)" by simp
  then obtain self2 where "forward_prop self1 g1 y = Inr (o2, self2, g2)"
    by (auto simp: out_eq_Inr)
  with 1 show ?thesis
    by (cases "torch_add o1 o2") (simp_all add: ConvNet_forward_def)
qed

lemma ConvNet_forward_ok:
  assumes v: "ConvNet_valid self M C" and x: "shape x = [N, M, L]" "wf_tensor x" and L: "4 \<le> L"
    and M: "0 < M"
    and r: "case reverse of None \<Rightarrow> True
            | Some y \<Rightarrow> wf_tensor y \<and> (\<exists>L2. shape y = [N, M, L2] \<and> 4 \<le> L2)"
  shows "\<exists>t self' g'. ConvNet_forward self g x reverse = Inr (t, self', g') \<and>
           shape t = (if N = 1 then [C] else [N, C]) \<and> length (data t) = N * C \<and>
           (\<forall>n<N. (\<Sum>c<C. exp (data t ! (n * C + c))) = 1)"
proof -
  from v have C: "2 \<le> C" by (simp add: ConvNet_valid_def)
  from ConvNet_pass [OF v x L M, of g] obtain o1 self1 g1 where
    1: "forward_prop self g x = Inr (o1, self1, g1)"
    and o1: "shape o1 = [N, C, 1]" "wf_tensor o1" "is_distribution C (data o1)"
    by blast
  from o1 have len1: "length (data o1) = N * C" by (simp add: wf_tensor_def)
  show ?thesis
  proof (cases reverse)
    case None
    from 1 have "ConvNet_forward self g x None = Inr (torch_squeeze (torch_log o1), self1, g1)"
      by (simp add: ConvNet_forward_def)
    moreover from log_rows [OF o1(3) len1]
    have "\<forall>n<N. (\<Sum>c<C. exp (data (torch_squeeze (torch_log o1)) ! (n * C + c))) = 1" by simp
    ultimately show ?thesis using None o1(1) len1 C by (simp add: squeeze_shape)
  next
    case (Some y)
    with r obtain L2 where y: "wf_tensor y" "shape y = [N, M, L2]" "4 \<le> L2" by auto
    from ConvNet_pass [OF v y(2,1,3) M, of g1] obtain o2 self2 g2 where
      2: "forward_prop self g1 y = Inr (o2, self2, g2)"
      and o2: "shape o2 = [N, C, 1]" "wf_tensor o2" "is_distribution C (data o2)"
      by blast
    from 2 have "out (forward_prop self g1 y) = Inr (o2, g2)" by simp
    note run = ConvNet_forward_Some_eq [OF 1 this]
    from o1 o2 have "shape o2 = shape o1" by simp
    from log_average_same_shape [OF this o1(2) o2(2) o1(3) o2(3)] obtain s where
      s: "torch_add o1 o2 = Inr s" "shape s = shape o1" "length (data s) = length (data o1)"
        "data (torch_log (torch_div s 2)) = map ln (average (data o1) (data o2))"
        "is_distribution C (average (data o1) (data o2))"
      by blast
    let ?t = "torch_squeeze (torch_log (torch_div s 2))"
    from run s(1) obtain self' g' where
      f: "ConvNet_forward self g x (Some y) = Inr (?t, self', g')"
      by (cases "ConvNet_forward self g x (Some y)") auto
    from s(3,4) len1 have "length (average (data o1) (data o2)) = N * C"
      by (metis length_map torch_div_simps(2) torch_log_simps(2))
    from log_rows [OF s(5) this] s(4)
    have rows: "\<forall>n<N. (\<Sum>c<C. exp (data ?t ! (n * C + c))) = 1" by simp
    from s(2,3) o1(1) len1 C have "shape ?t = (if N = 1 then [C] else [N, C])"
      "length (data ?t) = N * C" by (simp_all add: squeeze_shape)
    with f rows Some show ?thesis by blast
  qed
qed

subsection \<open>Layers that draw no random numbers\<close>

lemma with_generator_simps [simp]:
  "with_generator g (Inl e) = Inl e" "with_generator g (Inr (y, s, g')) = Inr (y, s, g)"
  by (simp_all add: with_generator_def)

lemma with_generator_bind:
  "with_generator g (bind r (\<lambda>y. Inr (y, s, g0))) = bind r (\<lambda>y. Inr (y, s, g))"
  by (cases r) simp_all

lemma layer_forward_det:
  assumes "\<not> tr \<or> (\<forall>p. m \<noteq> Dropout p)"
  shows "layer_forward tr m g x = with_generator g (layer_forward tr m g0 x)"
proof (cases m)
  case (Dropout p)
  with assms show ?thesis by (simp add: dropout_forward_def)
next
  case (BatchNorm1d b)
  then show ?thesis by (cases "batchnorm_forward tr b x") auto
qed (simp_all add: with_generator_bind)

lemma sequential_forward_det:
  "\<not> tr \<or> no_dropout ms \<Longrightarrow>
   sequential_forward tr ms g x = with_generator g (sequential_forward tr ms g0 x)"
proof (induction ms arbitrary: g g0 x)
  case Nil
  show ?case by simp
next
  case (Cons m ms)
  then have m: "\<not> tr \<or> (\<forall>p. m \<noteq> Dropout p)" and ms: "\<not> tr \<or> no_dropout ms"
    by (auto simp: no_dropout_def)
  note L = layer_forward_det [OF m, of g x g0]
  show ?case
  proof (cases "layer_forward tr m g0 x")
    case (Inl e)
    with L show ?thesis by simp
  next
    case (Inr v)
    obtain y m' g1 where v: "v = (y, m', g1)" by (cases v)
    with Inr L have 1: "layer_forward tr m g x = Inr (y, m', g)" by simp
    note IH = Cons.IH [OF ms, of g y g1]
    show ?thesis
    proof (cases "sequential_forward tr ms g1 y")
      case (Inl e)
      with IH 1 Inr v show ?thesis by simp
    next
      case 2: (Inr w)
      obtain z ms' g2 where w: "w = (z, ms', g2)" by (cases w)
      with IH 2 have "sequential_forward tr ms g y = Inr (z, ms', g)" by simp
      with 1 2 w Inr v show ?thesis by simp
    qed
  qed
qed

lemma sequential_forward_det_Inr:
  assumes "\<not> tr \<or> no_dropout ms" "sequential_forward tr ms g x = Inr (y, ms', g')"
  shows "g' = g"
  using sequential_forward_det [OF assms(1), of g x g] assms(2) by simp

subsection \<open>The two passes of a call\<close>

lemma view_wf: "wf_tensor x \<Longrightarrow> view x k = Inr v \<Longrightarrow> wf_tensor v"
  by (auto simp: view_def wf_tensor_def numel_def split: if_splits option.splits)

text \<open>The first layer of the MLP classifier reads the shape and the elements of its
  input, not its strides.\<close>

lemma linear_forward_cong:
  "shape v' = shape v \<Longrightarrow> data v' = data v \<Longrightarrow> linear_forward l v' = linear_forward l v"
  by (simp add: linear_forward_def)

lemma KimNet_forward_cong:
  assumes v: "KimNet_valid self C"
    and x': "view x' (bins self * marks self) = Inr v'"
    and x: "view x (bins self * marks self) = Inr v"
    and e: "shape v' = shape v" "data v' = data v"
  shows "KimNet_forward self g x' reverse = KimNet_forward self g x reverse"
proof -
  from v obtain l ms where m: "model self = Linear l # ms"
    by (auto simp: KimNet_valid_def)
  have "sequential_forward (training self) (model self) g v'
      = sequential_forward (training self) (model self) g v"
    by (simp only: m sequential_forward.simps layer_forward.simps linear_forward_cong [OF e])
  then show ?thesis by (simp only: KimNet_forward_def x' x bind_Inr)
qed

lemma log_average_twice:
  assumes "wf_tensor p"
  shows "log_average p p = Inr (torch_log p)"
proof -
  from torch_add_same [OF assms assms]
  have "torch_add p p = Inr (tensor_of (shape p) (map2 (+) (data p) (data p)))" by simp
  then show ?thesis
    by (cases p)
       (simp add: log_average_def torch_log_def torch_div_def map_tensor_def zip_same_conv_map)
qed

lemma log_average_same_shape_eq:
  assumes "wf_tensor p1" "wf_tensor p2" "shape p2 = shape p1"
  shows "log_average p1 p2 =
           Inr (tensor_of (shape p1) (map2 (\<lambda>a b. ln ((a + b) / 2)) (data p1) (data p2)))"
  using torch_add_same [OF assms]
  by (simp add: log_average_def torch_log_def torch_div_def map_tensor_def case_prod_beta)

lemma KimNet_forward_Some_eq:
  "map_sum id fst (KimNet_forward self g x (Some y)) =
     bind (KimNet_probabilities self g x) (\<lambda>(p1, g1).
     bind (KimNet_probabilities self g1 y) (\<lambda>(p2, g2). log_average p1 p2))"
proof -
  let ?k = "bins self * marks self"
  let ?tr = "training self"
  show ?thesis
  proof (cases "view x ?k")
    case (Inl e)
    then show ?thesis by (simp add: KimNet_forward_def KimNet_probabilities_def)
  next
    case v1: (Inr v1)
    show ?thesis
    proof (cases "sequential_forward ?tr (model self) g v1")
      case (Inl e)
      with v1 show ?thesis by (simp add: KimNet_forward_def KimNet_probabilities_def)
    next
      case 1: (Inr r1)
      obtain o1 m1 g1 where r1: "r1 = (o1, m1, g1)" by (cases r1)
      from 1 r1 have run1: "sequential_forward ?tr (model self) g v1 = Inr (o1, m1, g1)" by simp
      with v1 have P1: "KimNet_probabilities self g x = Inr (o1, g1)"
        by (simp add: KimNet_probabilities_def)
      show ?thesis
      proof (cases "view y ?k")
        case (Inl e)
        with v1 run1 P1 show ?thesis by (simp add: KimNet_forward_def KimNet_probabilities_def)
      next
        case v2: (Inr v2)
        note again = sequential_forward_again [OF run1, of g1 v2]
        show ?thesis
        proof (cases "sequential_forward ?tr (model self) g1 v2")
          case (Inl e)
          with again have "sequential_forward ?tr m1 g1 v2 = Inl e" by (simp add: out_eq_Inl)
          with Inl v1 run1 P1 v2 show ?thesis
            by (simp add: KimNet_forward_def KimNet_probabilities_def)
        next
          case 2: (Inr r2)
          obtain o2 m2 g2 where r2: "r2 = (o2, m2, g2)" by (cases r2)
          with 2 again have "out (sequential_forward ?tr m1 g1 v2) = Inr (o2, g2)" by simp
          then obtain m2' where "sequential_forward ?tr m1 g1 v2 = Inr (o2, m2', g2)"
            by (auto simp: out_eq_Inr)
          with 2 r2 v1 run1 P1 v2 show ?thesis
            by (cases "torch_add o1 o2")
               (simp_all add: KimNet_forward_def KimNet_probabilities_def log_average_def)
        qed
      qed
    qed
  qed
qed

lemma ConvNet_forward_Some_eq2:
  "map_sum id fst (ConvNet_forward self g x (Some y)) =
     bind (ConvNet_probabilities self g x) (\<lambda>(p1, g1).
     bind (ConvNet_probabilities self g1 y) (\<lambda>(p2, g2).
       map_sum id torch_squeeze (log_average p1 p2)))"
proof (cases "forward_prop self g x")
  case (Inl e)
  then show ?thesis by (simp add: ConvNet_forward_def ConvNet_probabilities_def)
next
  case 1: (Inr r1)
  obtain o1 self1 g1 where r1: "r1 = (o1, self1, g1)" by (cases r1)
  from 1 r1 have run1: "forward_prop self g x = Inr (o1, self1, g1)" by simp
  note again = forward_prop_again [OF run1, of g1 y]
  show ?thesis
  proof (cases "forward_prop self g1 y")
    case (Inl e)
    with again have "forward_prop self1 g1 y = Inl e" by (simp add: out_eq_Inl)
    with Inl run1 show ?thesis by (simp add: ConvNet_forward_def ConvNet_probabilities_def)
  next
    case 2: (Inr r2)
    obtain o2 self2 g2 where r2: "r2 = (o2, self2, g2)" by (cases r2)
    with 2 have "out (forward_prop self g1 y) = Inr (o2, g2)" by simp
    from ConvNet_forward_Some_eq [OF run1 this] run1 2 r2 show ?thesis
      by (cases "torch_add o1 o2") (simp_all add: ConvNet_probabilities_def log_average_def)
  qed
qed

lemma KimNet_forward_None_eq:
  "map_sum id fst (KimNet_forward self g x None) =
     bind (KimNet_probabilities self g x) (\<lambda>(p1, g1). Inr (torch_log p1))"
proof (cases "view x (bins self * marks self)")
  case (Inl e)
  then show ?thesis by (simp add: KimNet_forward_def KimNet_probabilities_def)
next
  case (Inr v1)
  then show ?thesis
    by (cases "sequential_forward (training self) (model self) g v1")
       (auto simp: KimNet_forward_def KimNet_probabilities_def)
qed

lemma ConvNet_forward_None_eq:
  "map_sum id fst (ConvNet_forward self g x None) =
     bind (ConvNet_probabilities self g x) (\<lambda>(p1, g1). Inr (torch_squeeze (torch_log p1)))"
  by (cases "forward_prop self g x") (auto simp: ConvNet_forward_def ConvNet_probabilities_def)

lemma KimNet_probabilities_Inr:
  assumes "KimNet_probabilities self g x = Inr (p, g')" "wf_tensor x"
  shows "wf_tensor p \<and> (\<not> training self \<longrightarrow> g' = g)"
proof -
  from assms(1) obtain v1 m1 where v1: "view x (bins self * marks self) = Inr v1"
    and run: "sequential_forward (training self) (model self) g v1 = Inr (p, m1, g')"
    by (auto simp: KimNet_probabilities_def out_eq_Inr bind_eq_Inr)
  from view_wf [OF assms(2) v1] have "wf_tensor v1" .
  from sequential_forward_wf [OF this run] have "wf_tensor p" .
  moreover have "g' = g" if "\<not> training self"
    using sequential_forward_det_Inr [OF _ run] that by simp
  ultimately show ?thesis by simp
qed

lemma ConvNet_no_dropout: "ConvNet_valid self M C \<Longrightarrow> no_dropout (all_layers self)"
  by (auto simp: ConvNet_valid_def all_layers_def no_dropout_def)

lemma ConvNet_probabilities_Inr:
  assumes "ConvNet_probabilities self g x = Inr (p, g')" "wf_tensor x"
  shows "wf_tensor p \<and> (\<not> training self \<or> no_dropout (all_layers self) \<longrightarrow> g' = g)"
proof -
  from assms(1) obtain self1 where run: "forward_prop self g x = Inr (p, self1, g')"
    by (auto simp: ConvNet_probabilities_def out_eq_Inr)
  from forward_prop_wf [OF assms(2) run] have "wf_tensor p" .
  moreover from forward_prop_Inr [OF run]
  have "sequential_forward (training self) (all_layers self) g x = Inr (p, all_layers self1, g')"
    by simp
  then have "g' = g" if "\<not> training self \<or> no_dropout (all_layers self)"
    using sequential_forward_det_Inr [OF that] by simp
  ultimately show ?thesis by simp
qed

subsection \<open>Evaluation of the concrete classifier\<close>

lemma example_KimNet_valid: "KimNet_valid example_KimNet 2"
  by (simp add: KimNet_valid_def example_KimNet_def valid_linear_def zero_linear_def
      first_class_linear_def)

lemma map_upt_const: "(\<forall>k<n. f k = c) \<Longrightarrow> map f [0..<n] = replicate n c"
  by (rule nth_equalityI) simp_all

lemma sum_list_upt_const:
  assumes "\<forall>j<n. f j = (c::real)"
  shows "sum_list (map f [0..<n]) = real n * c"
proof -
  from map_upt_const [OF assms] have "map f [0..<n] = replicate n c" .
  then show ?thesis by (simp add: sum_list_replicate)
qed

lemma linear_zero:
  assumes "shape x = [1, i]"
  shows "linear_forward (zero_linear i m) x = Inr (tensor_of [1, m] (replicate m 0))"
proof -
  have "map (\<lambda>k. (case lin_bias (zero_linear i m) of None \<Rightarrow> 0 | Some b \<Rightarrow> b ! (k mod m)) +
                sum_list (map (\<lambda>j. lin_weight (zero_linear i m) ! (k mod m) ! j *
                                    data x ! ((k div m) * i + j)) [0..<i])) [0..<m]
        = replicate m 0"
  proof (rule map_upt_const, intro allI impI)
    fix k assume k: "k < m"
    then have "sum_list (map (\<lambda>j. lin_weight (zero_linear i m) ! (k mod m) ! j *
                                    data x ! ((k div m) * i + j)) [0..<i]) = real i * 0"
      by (intro sum_list_upt_const) (simp add: zero_linear_def)
    with k show "(case lin_bias (zero_linear i m) of None \<Rightarrow> 0 | Some b \<Rightarrow> b ! (k mod m)) +
                sum_list (map (\<lambda>j. lin_weight (zero_linear i m) ! (k mod m) ! j *
                                    data x ! ((k div m) * i + j)) [0..<i]) = 0"
      by (simp add: zero_linear_def)
  qed
  moreover have "in_features (zero_linear i m) = i" "out_features (zero_linear i m) = m"
    by (simp_all add: zero_linear_def)
  ultimately show ?thesis using assms by (simp add: linear_forward_def Let_def)
qed

lemma softplus_zeros:
  "map_tensor softplus (tensor_of s (replicate m 0)) = tensor_of s (replicate m (ln 2))"
  by (simp add: map_tensor_def softplus_def)

lemma dropout_keep:
  assumes "\<forall>k<m. g k"
  shows "dropout_forward (1 / 2) True g (tensor_of s (replicate m c))
           = (tensor_of s (replicate m (2 * c)), advance m g)"
proof -
  from assms have "map (\<lambda>k. if g k then data (tensor_of s (replicate m c)) ! k / (1 - 1 / 2)
                          else 0) [0..<m]
      = replicate m (2 * c)"
    by (intro map_upt_const) simp
  then show ?thesis by (simp add: dropout_forward_def)
qed

lemma dropout_drop:
  assumes "\<forall>k<m. \<not> g k"
  shows "dropout_forward (1 / 2) True g (tensor_of s (replicate m c))
           = (tensor_of s (replicate m 0), advance m g)"
proof -
  from assms have "map (\<lambda>k. if g k then data (tensor_of s (replicate m c)) ! k / (1 - 1 / 2)
                          else 0) [0..<m]
      = replicate m 0"
    by (intro map_upt_const) simp
  then show ?thesis by (simp add: dropout_forward_def)
qed

lemma first_class_forward:
  "linear_forward first_class_linear (tensor_of [1, 400] (replicate 400 c))
     = Inr (tensor_of [1, 2] [400 * c, 0])"
proof -
  have a: "sum_list (map (\<lambda>j. replicate 400 1 ! j * replicate 400 c ! j) [0..<400]) = real 400 * c"
    by (intro sum_list_upt_const) simp
  have b: "sum_list (map (\<lambda>j. replicate 400 0 ! j * replicate 400 c ! j) [0..<400]) = real 400 * 0"
    by (intro sum_list_upt_const) simp
  have u: "[0..<2] = [0, Suc 0]" by (simp add: upt_rec)
  show ?thesis
    using a b by (simp add: linear_forward_def first_class_linear_def Let_def u)
qed

lemma softmax_pair:
  "softmax_forward 1 (tensor_of [1, 2] [a, b])
     = Inr (tensor_of [1, 2] [exp a / (exp a + exp b), exp b / (exp a + exp b)])"
proof -
  have u: "[0..<2] = [0, Suc 0]" by (simp add: upt_rec)
  show ?thesis by (simp add: softmax_forward_def Let_def u)
qed

lemma example_front:
  assumes "shape v = [1, 1]"
  shows "sequential_forward True (model example_KimNet) g v =
           bind (case dropout_forward (1 / 2) True g (tensor_of [1, 400] (replicate 400 (ln 2)))
                 of (y, g') \<Rightarrow> Inr (y, Dropout (1 / 2), g'))
             (\<lambda>(y, m', g'). bind (sequential_forward True [Linear first_class_linear, Softmax 1] g' y)
                (\<lambda>(z, ms', g''). Inr (z,
                   [Linear (zero_linear 1 600), Softplus, Linear (zero_linear 600 500), Softplus,
                    Linear (zero_linear 500 400), Softplus, m'] @ ms', g'')))"
  using assms
  by (simp add: example_KimNet_def linear_zero softplus_zeros bind_def split: sum.splits prod.splits)

lemma example_view:
  "view (zeros_tensor [1, 1, 1]) (bins example_KimNet * marks example_KimNet)
     = Inr (tensor_of [1, 1] [0])"
proof -
  have "view (zeros_tensor [1, 1, 1]) 1 = Inr (tensor_of [1, nat 1] (data (zeros_tensor [1, 1, 1])))"
    by (rule view_contiguous) (simp_all add: numel_def zeros_tensor_def)
  then show ?thesis by (simp add: zeros_tensor_def example_KimNet_def)
qed

lemma example_tail:
  "sequential_forward True [Linear first_class_linear, Softmax 1] g
     (tensor_of [1, 400] (replicate 400 c))
   = Inr (tensor_of [1, 2] [exp (400 * c) / (exp (400 * c) + 1), 1 / (exp (400 * c) + 1)],
          [Linear first_class_linear, Softmax 1], g)"
proof -
  have "sequential_forward True [Linear first_class_linear, Softmax 1] g
     (tensor_of [1, 400] (replicate 400 c))
   = Inr (tensor_of [1, 2]
            [exp (400 * c) / (exp (400 * c) + exp 0), exp 0 / (exp (400 * c) + exp 0)],
          [Linear first_class_linear, Softmax 1], g)"
    by (simp only: sequential_forward.simps layer_forward.simps first_class_forward softmax_pair
          bind_Inr prod.case)
  then show ?thesis by (simp only: exp_zero)
qed

lemma example_pass:
  assumes d: "dropout_forward (1 / 2) True g (tensor_of [1, 400] (replicate 400 (ln 2)))
                = (tensor_of [1, 400] (replicate 400 c), g')"
  shows "KimNet_probabilities example_KimNet g (zeros_tensor [1, 1, 1])
     = Inr (tensor_of [1, 2] [exp (400 * c) / (exp (400 * c) + 1), 1 / (exp (400 * c) + 1)], g')"
proof -
  have t: "training example_KimNet = True" by (simp add: example_KimNet_def)
  have sh: "shape (tensor_of [1, 1] [0]) = [1, 1]" by simp
  have "out (sequential_forward True (model example_KimNet) g (tensor_of [1, 1] [0]))
      = Inr (tensor_of [1, 2] [exp (400 * c) / (exp (400 * c) + 1), 1 / (exp (400 * c) + 1)], g')"
    by (simp only: example_front [OF sh] d example_tail bind_Inr prod.case out_simps)
  then show ?thesis
    by (simp only: KimNet_probabilities_def example_view bind_Inr t)
qed

section \<open>The claims\<close>



text \<open>
  Claim C2. The forward pass of the convolutional classifier should return an output of
  shape (batch, number of classes). For a batch of one sample it does not: for the
  classifier with 3 marks and 5 classes and an input of shape \<open>(1, 3, 128)\<close> the output has
  shape \<open>(5)\<close>, because \<^verbatim>\<open>torch.squeeze\<close> is called without a dimension. (For every
  other batch size the shape is (batch, number of classes) and the rows of exponentials
  sum to 1, by \<open>ConvNet_forward_ok\<close>.)
\<close>

theorem ConvNet_forward_batch_of_one:
  "\<exists>self t self' g'.
     ConvNet_init (const_stream 0) 3 5 False = Inr self \<and>
     ConvNet_forward self keep_all (zeros_tensor [1, 3, 128]) None = Inr (t, self', g') \<and>
     shape t = [5] \<and> shape t \<noteq> [1, 5]"
proof -
  from ConvNet_init_total [of 5 3 "const_stream 0" False] obtain self where
    i: "ConvNet_init (const_stream 0) 3 5 False = Inr self" and v: "ConvNet_valid self 3 5"
    by auto
  have x: "shape (zeros_tensor [1, 3, 128]) = [1, 3, 128]" "wf_tensor (zeros_tensor [1, 3, 128])"
    by (simp_all add: zeros_tensor_def wf_tensor_def)
  have r: "case None of None \<Rightarrow> True
     | Some y \<Rightarrow> wf_tensor y \<and> (\<exists>L2. shape y = [1, 3, L2] \<and> 4 \<le> L2)" by simp
  from ConvNet_forward_ok [OF v x _ _ r, of keep_all] obtain t self' g' where
    "ConvNet_forward self keep_all (zeros_tensor [1, 3, 128]) None = Inr (t, self', g')"
    "shape t = [5]"
    by auto
  with i show ?thesis by auto
qed

text \<open>
  Claim C3. Constructing the convolutional classifier with a number of classes of 1 or less
  fails with the assertion error, whatever the other arguments; with 2 or more classes the
  construction succeeds, for every number of marks a tensor can have as a dimension (a
  negative dimension is refused by the allocation of the framework, not by a check of the
  classifier).
\<close>

theorem ConvNet_init_precondition:
  "(nb_cls \<le> 1 \<longrightarrow> ConvNet_init w marks0 nb_cls leaky = Inl AssertionError) \<and>
   (2 \<le> nb_cls \<and> 0 \<le> marks0 \<longrightarrow>
      (\<exists>self. ConvNet_init w marks0 nb_cls leaky = Inr self \<and>
         ConvNet_valid self (nat marks0) (nat nb_cls)))"
proof (intro conjI impI)
  assume "nb_cls \<le> 1"
  then show "ConvNet_init w marks0 nb_cls leaky = Inl AssertionError"
    by (simp add: ConvNet_init_def)
next
  assume "2 \<le> nb_cls \<and> 0 \<le> marks0"
  then have "1 < nb_cls" "0 \<le> marks0" by simp_all
  from ConvNet_init_total [OF this, of w leaky]
  show "\<exists>self. ConvNet_init w marks0 nb_cls leaky = Inr self \<and>
         ConvNet_valid self (nat marks0) (nat nb_cls)" by blast
qed

theorem ConvNet_init_precondition_witness:
  "ConvNet_init (const_stream 0) 3 1 False = Inl AssertionError \<and>
   ConvNet_init (const_stream 0) 3 0 True = Inl AssertionError \<and>
   (\<exists>self. ConvNet_init (const_stream 0) 3 2 False = Inr self \<and> ConvNet_valid self 3 2) \<and>
   (\<exists>self. ConvNet_init (const_stream 0) 3 5 True = Inr self \<and> ConvNet_valid self 3 5)"
  using ConvNet_init_precondition [of 1 "const_stream 0" 3 False]
    ConvNet_init_precondition [of 0 "const_stream 0" 3 True]
    ConvNet_init_precondition [of 2 "const_stream 0" 3 False]
    ConvNet_init_precondition [of 5 "const_stream 0" 3 True]
  by simp

text \<open>
  Claim C4. Passing the forward strand also as the reverse strand should not change the
  output. In training mode this fails for KimNet: the two passes draw their dropout masks
  one after the other from the generator, so they differ in general. With a generator that
  keeps the 400 elements of the first pass and drops those of the second, the concrete
  classifier returns different outputs for \<open>(x, x)\<close> and for \<open>x\<close> alone.
\<close>

theorem forward_same_strand_counterexample:
  "wf_tensor (zeros_tensor [1, 1, 1]) \<and> KimNet_valid example_KimNet 2 \<and> training example_KimNet \<and>
   map_sum id fst (KimNet_forward example_KimNet (keep_first 400) (zeros_tensor [1, 1, 1])
                     (Some (zeros_tensor [1, 1, 1])))
   \<noteq> map_sum id fst (KimNet_forward example_KimNet (keep_first 400) (zeros_tensor [1, 1, 1]) None)"
proof -
  define x where "x = zeros_tensor [1, 1, 1]"
  define g1 where "g1 = keep_first 400"
  define g2 where "g2 = advance 400 g1"
  define g3 where "g3 = advance 400 g2"
  define A :: real where "A = 400 * (2 * ln 2)"
  define p where "p = exp A / (exp A + 1)"
  define q where "q = 1 / (exp A + 1)"
  define P1 where "P1 = tensor_of [1, 2] [p, q]"
  define P2 where "P2 = tensor_of [1, 2] [1 / 2, 1 / (2::real)]"
  have k1: "\<forall>k<400. g1 k" by (simp add: g1_def keep_first_def)
  have k2: "\<forall>k<400. \<not> g2 k" by (simp add: g2_def g1_def keep_first_def advance_def)
  have p1: "KimNet_probabilities example_KimNet g1 x = Inr (P1, g2)"
    unfolding x_def P1_def p_def q_def A_def g2_def
    by (rule example_pass) (rule dropout_keep [OF k1])
  have "KimNet_probabilities example_KimNet g2 x
      = Inr (tensor_of [1, 2] [exp (400 * 0) / (exp (400 * 0) + 1), 1 / (exp (400 * 0) + 1)], g3)"
    unfolding x_def g3_def
    by (rule example_pass) (rule dropout_drop [OF k2])
  then have p2: "KimNet_probabilities example_KimNet g2 x = Inr (P2, g3)"
    by (simp add: P2_def)
  have wf: "wf_tensor P1" "wf_tensor P2" "shape P2 = shape P1"
    by (simp_all add: wf_tensor_def P1_def P2_def)
  have "map_sum id fst (KimNet_forward example_KimNet g1 x (Some x)) = log_average P1 P2"
    by (simp add: KimNet_forward_Some_eq p1 p2)
  also have "\<dots> = Inr (tensor_of [1, 2] [ln ((p + 1 / 2) / 2), ln ((q + 1 / 2) / 2)])"
    by (simp add: log_average_same_shape_eq [OF wf]) (simp add: P1_def P2_def)
  finally have some: "map_sum id fst (KimNet_forward example_KimNet g1 x (Some x))
      = Inr (tensor_of [1, 2] [ln ((p + 1 / 2) / 2), ln ((q + 1 / 2) / 2)])" .
  have none: "map_sum id fst (KimNet_forward example_KimNet g1 x None)
      = Inr (tensor_of [1, 2] [ln p, ln q])"
    by (simp add: KimNet_forward_None_eq p1) (simp add: P1_def torch_log_def map_tensor_def)
  have "0 < A" by (simp add: A_def)
  then have e: "1 < exp A" by (simp only: one_less_exp_iff)
  then have "1 / 2 * (exp A + 1) < exp A" by simp
  moreover have "0 < exp A + 1" by (simp add: add_pos_pos)
  ultimately have p: "1 / 2 < p" unfolding p_def by (simp only: pos_less_divide_eq)
  then have "0 < (p + 1 / 2) / 2" "(p + 1 / 2) / 2 < p" by simp_all
  then have "ln ((p + 1 / 2) / 2) < ln p" by (simp add: ln_less_cancel_iff)
  then have "ln ((p + 1 / 2) / 2) \<noteq> ln p" by simp
  with some none have ne: "map_sum id fst (KimNet_forward example_KimNet g1 x (Some x))
      \<noteq> map_sum id fst (KimNet_forward example_KimNet g1 x None)"
    by simp
  have "wf_tensor x" by (simp add: x_def zeros_tensor_def wf_tensor_def)
  moreover have "training example_KimNet" by (simp add: example_KimNet_def)
  ultimately show ?thesis using ne example_KimNet_valid
    unfolding x_def g1_def by (intro conjI)
qed

text \<open>
  Claim C4, amended: for every well-formed input, KimNet in evaluation mode returns the same
  output for \<open>(x, x)\<close> as for \<open>x\<close> alone, and so does the convolutional classifier in
  evaluation mode and, having no dropout layer, in training mode as well. This includes the
  inputs on which the call raises: it raises the same error in both cases.
\<close>

theorem forward_same_strand:
  assumes x: "wf_tensor x"
  shows "(\<not> training kim \<longrightarrow>
           map_sum id fst (KimNet_forward kim g x (Some x)) = map_sum id fst (KimNet_forward kim g x None)) \<and>
         (\<not> training conv \<or> ConvNet_valid conv M C \<longrightarrow>
           map_sum id fst (ConvNet_forward conv g x (Some x)) = map_sum id fst (ConvNet_forward conv g x None))"
proof (intro conjI impI)
  assume ev: "\<not> training kim"
  show "map_sum id fst (KimNet_forward kim g x (Some x)) = map_sum id fst (KimNet_forward kim g x None)"
  proof (cases "KimNet_probabilities kim g x")
    case (Inl e)
    then show ?thesis by (simp add: KimNet_forward_Some_eq KimNet_forward_None_eq)
  next
    case (Inr r)
    obtain p g' where r: "r = (p, g')" by (cases r)
    with Inr KimNet_probabilities_Inr [of kim g x p g'] x ev have "wf_tensor p" "g' = g" by simp_all
    with Inr r show ?thesis
      by (simp add: KimNet_forward_Some_eq KimNet_forward_None_eq log_average_twice)
  qed
next
  assume d: "\<not> training conv \<or> ConvNet_valid conv M C"
  then have nd: "\<not> training conv \<or> no_dropout (all_layers conv)"
    using ConvNet_no_dropout by blast
  show "map_sum id fst (ConvNet_forward conv g x (Some x)) = map_sum id fst (ConvNet_forward conv g x None)"
  proof (cases "ConvNet_probabilities conv g x")
    case (Inl e)
    then show ?thesis by (simp add: ConvNet_forward_Some_eq2 ConvNet_forward_None_eq)
  next
    case (Inr r)
    obtain p g' where r: "r = (p, g')" by (cases r)
    with Inr ConvNet_probabilities_Inr [of conv g x p g'] x nd have "wf_tensor p" "g' = g" by simp_all
    with Inr r show ?thesis
      by (simp add: ConvNet_forward_Some_eq2 ConvNet_forward_None_eq log_average_twice)
  qed
qed

theorem forward_same_strand_witness:
  "wf_tensor (zeros_tensor [2, 3, 8]) \<and> \<not> training (example_KimNet\<lparr>training := False\<rparr>) \<and>
   map_sum id fst (KimNet_forward (example_KimNet\<lparr>training := False\<rparr>) keep_all
       (zeros_tensor [2, 3, 8]) (Some (zeros_tensor [2, 3, 8])))
     = map_sum id fst (KimNet_forward (example_KimNet\<lparr>training := False\<rparr>) keep_all
       (zeros_tensor [2, 3, 8]) None) \<and>
   (\<exists>conv. ConvNet_init (const_stream 0) 3 5 False = Inr conv \<and> ConvNet_valid conv 3 5 \<and>
      map_sum id fst (ConvNet_forward conv keep_all (zeros_tensor [2, 3, 8]) (Some (zeros_tensor [2, 3, 8])))
        = map_sum id fst (ConvNet_forward conv keep_all (zeros_tensor [2, 3, 8]) None))"
proof -
  from ConvNet_init_total [of 5 3 "const_stream 0" False] obtain conv where
    i: "ConvNet_init (const_stream 0) 3 5 False = Inr conv" and v: "ConvNet_valid conv 3 5"
    by auto
  have x: "wf_tensor (zeros_tensor [2, 3, 8])" by (simp add: zeros_tensor_def wf_tensor_def)
  have e: "\<not> training (example_KimNet\<lparr>training := False\<rparr>)" by simp
  note T = forward_same_strand [OF x, where kim = "example_KimNet\<lparr>training := False\<rparr>"
      and conv = conv and M = 3 and C = 5 and g = keep_all]
  from v have "\<not> training conv \<or> ConvNet_valid conv 3 5" by simp
  from T [THEN conjunct1, rule_format, OF e] T [THEN conjunct2, rule_format, OF this] i v x e
  show ?thesis by blast
qed

text \<open>
  Claim C5. With a reverse strand, both classifiers return the logarithm of the elementwise
  average of \<open>P forward\<close> and \<open>P reverse\<close>, where \<open>P\<close> is the pipeline of the one classifier
  the call was made on: the second pass runs on the same parameters as the first. What the
  first pass leaves behind (the generator advanced by dropout, the running statistics of
  batch normalisation) does not change the parameters, and the second pass computes what
  the classifier as it was before the call computes from the generator the first pass left.
  For outputs of the same shape the result is \<open>ln ((a + b) / 2)\<close> element by element.
\<close>

theorem forward_shared_pipeline:
  "map_sum id fst (KimNet_forward kim g x (Some y)) =
     bind (KimNet_probabilities kim g x) (\<lambda>(p1, g1).
     bind (KimNet_probabilities kim g1 y) (\<lambda>(p2, g2). log_average p1 p2)) \<and>
   map_sum id fst (ConvNet_forward conv g x (Some y)) =
     bind (ConvNet_probabilities conv g x) (\<lambda>(p1, g1).
     bind (ConvNet_probabilities conv g1 y) (\<lambda>(p2, g2).
       map_sum id torch_squeeze (log_average p1 p2))) \<and>
   (wf_tensor p1 \<and> wf_tensor p2 \<and> shape p2 = shape p1 \<longrightarrow>
      log_average p1 p2 =
        Inr (tensor_of (shape p1) (map2 (\<lambda>a b. ln ((a + b) / 2)) (data p1) (data p2))))"
  by (intro conjI impI KimNet_forward_Some_eq ConvNet_forward_Some_eq2)
     (simp add: log_average_same_shape_eq)

theorem forward_shared_pipeline_witness:
  "wf_tensor half_tensor \<and>
   log_average half_tensor half_tensor = Inr (tensor_of [1, 2] [ln (1 / 2), ln (1 / 2)]) \<and>
   map_sum id fst (KimNet_forward example_KimNet keep_all (zeros_tensor [2, 1]) (Some (zeros_tensor [2, 1]))) =
     bind (KimNet_probabilities example_KimNet keep_all (zeros_tensor [2, 1])) (\<lambda>(p1, g1).
     bind (KimNet_probabilities example_KimNet g1 (zeros_tensor [2, 1])) (\<lambda>(p2, g2). log_average p1 p2))"
proof -
  have w: "wf_tensor half_tensor" by (simp add: half_tensor_def wf_tensor_def)
  note T = forward_shared_pipeline [of example_KimNet keep_all "zeros_tensor [2, 1]" "zeros_tensor [2, 1]"
      _ half_tensor half_tensor]
  from T [THEN conjunct2, THEN conjunct2] w
  have "log_average half_tensor half_tensor =
      Inr (tensor_of (shape half_tensor)
             (map2 (\<lambda>a b. ln ((a + b) / 2)) (data half_tensor) (data half_tensor)))"
    by simp
  then have "log_average half_tensor half_tensor =
      Inr (tensor_of [1, 2] [ln (1 / 2), ln (1 / 2)])"
    by (simp add: half_tensor_def)
  with w T [THEN conjunct1] show ?thesis by (intro conjI)
qed

text \<open>
  Claim C6. Applied to a convolutional layer, \<^verbatim>\<open>init_weights\<close> replaces every weight by a
  draw from the uniform distribution on \<open>[-b, b)\<close> with \<open>b = sqrt (6 / fan_in)\<close>, the bound
  of He initialisation for rectifiers, and sets the bias to zeros; applied to a linear
  layer, it replaces every weight by a draw from the normal distribution with mean 0 and
  standard deviation \<open>sqrt (2 / fan_in)\<close>, and sets the bias to zeros. The shapes of the
  parameters and the other attributes of the layer are unchanged. The layer has a bias, as
  every layer the two classifiers build.
\<close>

theorem init_weights_kaiming:
  "(\<forall>b. conv_bias c = Some b \<longrightarrow>
      (\<exists>c'. init_weights u z (Conv1d c) = Inr (Conv1d c') \<and>
         conv_bias c' = Some (replicate (length b) 0) \<and>
         in_channels c' = in_channels c \<and> out_channels c' = out_channels c \<and>
         kernel_size c' = kernel_size c \<and> padding c' = padding c \<and>
         length (conv_weight c') = out_channels c \<and>
         (\<forall>r<out_channels c. length (conv_weight c' ! r) = in_channels c \<and>
            (\<forall>ci<in_channels c. length (conv_weight c' ! r ! ci) = kernel_size c \<and>
               (\<forall>j<kernel_size c.
                  conv_weight c' ! r ! ci ! j =
                    - sqrt (6 / real (in_channels c * kernel_size c))
                    + 2 * sqrt (6 / real (in_channels c * kernel_size c))
                        * u (r * in_channels c * kernel_size c + ci * kernel_size c + j) \<and>
                  ((\<forall>n. 0 \<le> u n \<and> u n < 1) \<longrightarrow>
                     \<bar>conv_weight c' ! r ! ci ! j\<bar> \<le> sqrt (6 / real (in_channels c * kernel_size c)))))))) \<and>
   (\<forall>b. lin_bias l = Some b \<longrightarrow>
      (\<exists>l'. init_weights u z (Linear l) = Inr (Linear l') \<and>
         lin_bias l' = Some (replicate (length b) 0) \<and>
         in_features l' = in_features l \<and> out_features l' = out_features l \<and>
         length (lin_weight l') = out_features l \<and>
         (\<forall>r<out_features l. length (lin_weight l' ! r) = in_features l \<and>
            (\<forall>j<in_features l.
               lin_weight l' ! r ! j = sqrt (2 / real (in_features l)) * z (r * in_features l + j)))))"
proof (intro conjI allI impI)
  fix b assume b: "conv_bias c = Some b"
  let ?fan = "in_channels c * kernel_size c"
  let ?w = "map (\<lambda>r. map (\<lambda>ci. map (\<lambda>j.
                  kaiming_uniform ?fan u (r * in_channels c * kernel_size c + ci * kernel_size c + j))
                [0..<kernel_size c]) [0..<in_channels c]) [0..<out_channels c]"
  let ?c = "c\<lparr>conv_weight := ?w, conv_bias := Some (zeros b)\<rparr>"
  from b have run: "init_weights u z (Conv1d c) = Inr (Conv1d ?c)" by (simp add: Let_def)
  have el: "\<forall>r<out_channels c. length (conv_weight ?c ! r) = in_channels c \<and>
            (\<forall>ci<in_channels c. length (conv_weight ?c ! r ! ci) = kernel_size c \<and>
               (\<forall>j<kernel_size c.
                  conv_weight ?c ! r ! ci ! j =
                    - sqrt (6 / real ?fan) + 2 * sqrt (6 / real ?fan)
                        * u (r * in_channels c * kernel_size c + ci * kernel_size c + j) \<and>
                  ((\<forall>n. 0 \<le> u n \<and> u n < 1) \<longrightarrow>
                     \<bar>conv_weight ?c ! r ! ci ! j\<bar> \<le> sqrt (6 / real ?fan))))"
  proof (intro allI impI conjI)
    fix r ci j assume i: "r < out_channels c" "ci < in_channels c" "j < kernel_size c"
    then have w: "conv_weight ?c ! r ! ci ! j =
        kaiming_uniform ?fan u (r * in_channels c * kernel_size c + ci * kernel_size c + j)"
      by simp
    then show "conv_weight ?c ! r ! ci ! j =
        - sqrt (6 / real ?fan) + 2 * sqrt (6 / real ?fan)
            * u (r * in_channels c * kernel_size c + ci * kernel_size c + j)"
      by (simp only: kaiming_uniform_eq)
    assume "\<forall>n. 0 \<le> u n \<and> u n < 1"
    then have "0 \<le> u (r * in_channels c * kernel_size c + ci * kernel_size c + j)"
      "u (r * in_channels c * kernel_size c + ci * kernel_size c + j) < 1" by simp_all
    from kaiming_uniform_bounds [of u "r * in_channels c * kernel_size c + ci * kernel_size c + j" ?fan, OF this]
    show "\<bar>conv_weight ?c ! r ! ci ! j\<bar> \<le> sqrt (6 / real ?fan)"
      unfolding w by (simp add: abs_le_iff)
  qed simp_all
  show "\<exists>c'. init_weights u z (Conv1d c) = Inr (Conv1d c') \<and>
         conv_bias c' = Some (replicate (length b) 0) \<and>
         in_channels c' = in_channels c \<and> out_channels c' = out_channels c \<and>
         kernel_size c' = kernel_size c \<and> padding c' = padding c \<and>
         length (conv_weight c') = out_channels c \<and>
         (\<forall>r<out_channels c. length (conv_weight c' ! r) = in_channels c \<and>
            (\<forall>ci<in_channels c. length (conv_weight c' ! r ! ci) = kernel_size c \<and>
               (\<forall>j<kernel_size c.
                  conv_weight c' ! r ! ci ! j =
                    - sqrt (6 / real (in_channels c * kernel_size c))
                    + 2 * sqrt (6 / real (in_channels c * kernel_size c))
                        * u (r * in_channels c * kernel_size c + ci * kernel_size c + j) \<and>
                  ((\<forall>n. 0 \<le> u n \<and> u n < 1) \<longrightarrow>
                     \<bar>conv_weight c' ! r ! ci ! j\<bar> \<le> sqrt (6 / real (in_channels c * kernel_size c))))))"
    by (rule exI [of _ ?c]) (intro conjI run el, simp_all add: zeros_def)
next
  fix b assume b: "lin_bias l = Some b"
  let ?w = "map (\<lambda>r. map (\<lambda>j. kaiming_normal (in_features l) z (r * in_features l + j))
                [0..<in_features l]) [0..<out_features l]"
  let ?l = "l\<lparr>lin_weight := ?w, lin_bias := Some (zeros b)\<rparr>"
  from b have run: "init_weights u z (Linear l) = Inr (Linear ?l)" by (simp add: Let_def)
  have el: "\<forall>r<out_features l. length (lin_weight ?l ! r) = in_features l \<and>
            (\<forall>j<in_features l.
               lin_weight ?l ! r ! j = sqrt (2 / real (in_features l)) * z (r * in_features l + j))"
    by (simp add: kaiming_normal_eq)
  show "\<exists>l'. init_weights u z (Linear l) = Inr (Linear l') \<and>
         lin_bias l' = Some (replicate (length b) 0) \<and>
         in_features l' = in_features l \<and> out_features l' = out_features l \<and>
         length (lin_weight l') = out_features l \<and>
         (\<forall>r<out_features l. length (lin_weight l' ! r) = in_features l \<and>
            (\<forall>j<in_features l.
               lin_weight l' ! r ! j = sqrt (2 / real (in_features l)) * z (r * in_features l + j)))"
    by (rule exI [of _ ?l]) (intro conjI run el, simp_all add: zeros_def)
qed

theorem init_weights_kaiming_witness:
  "\<exists>c' l'.
     init_weights (const_stream (1 / 2)) (const_stream 1) (Conv1d (zero_conv 1 2 3 1)) = Inr (Conv1d c') \<and>
     conv_bias c' = Some [0, 0] \<and> conv_weight c' ! 1 ! 0 ! 2 = 0 \<and>
     init_weights (const_stream (1 / 2)) (const_stream 1) (Linear (zero_linear 2 3)) = Inr (Linear l') \<and>
     lin_bias l' = Some [0, 0, 0] \<and> lin_weight l' ! 2 ! 1 = 1"
proof -
  note T = init_weights_kaiming [of "zero_conv 1 2 3 1" "const_stream (1 / 2)" "const_stream 1"
      "zero_linear 2 3"]
  have cb: "conv_bias (zero_conv 1 2 3 1) = Some (replicate 2 0)" by (simp add: zero_conv_def)
  have lb: "lin_bias (zero_linear 2 3) = Some (replicate 3 0)" by (simp add: zero_linear_def)
  from T [THEN conjunct1, rule_format, OF cb] obtain c' where
    c: "init_weights (const_stream (1 / 2)) (const_stream 1) (Conv1d (zero_conv 1 2 3 1)) = Inr (Conv1d c')"
      "conv_bias c' = Some (replicate (length (replicate 2 (0::real))) 0)"
    and cw: "\<forall>r<out_channels (zero_conv 1 2 3 1). length (conv_weight c' ! r) = in_channels (zero_conv 1 2 3 1) \<and>
            (\<forall>ci<in_channels (zero_conv 1 2 3 1). length (conv_weight c' ! r ! ci) = kernel_size (zero_conv 1 2 3 1) \<and>
               (\<forall>j<kernel_size (zero_conv 1 2 3 1).
                  conv_weight c' ! r ! ci ! j =
                    - sqrt (6 / real (in_channels (zero_conv 1 2 3 1) * kernel_size (zero_conv 1 2 3 1)))
                    + 2 * sqrt (6 / real (in_channels (zero_conv 1 2 3 1) * kernel_size (zero_conv 1 2 3 1)))
                        * const_stream (1 / 2) (r * in_channels (zero_conv 1 2 3 1) * kernel_size (zero_conv 1 2 3 1) + ci * kernel_size (zero_conv 1 2 3 1) + j) \<and>
                  ((\<forall>n. 0 \<le> const_stream (1 / 2) n \<and> const_stream (1 / 2) n < 1) \<longrightarrow>
                     \<bar>conv_weight c' ! r ! ci ! j\<bar> \<le> sqrt (6 / real (in_channels (zero_conv 1 2 3 1) * kernel_size (zero_conv 1 2 3 1))))))"
    by blast
  from cw have "conv_weight c' ! 1 ! 0 ! 2 = 0"
    by (simp add: zero_conv_def const_stream_def)
  moreover from T [THEN conjunct2, rule_format, OF lb] obtain l' where
    l: "init_weights (const_stream (1 / 2)) (const_stream 1) (Linear (zero_linear 2 3)) = Inr (Linear l')"
      "lin_bias l' = Some (replicate (length (replicate 3 (0::real))) 0)"
    and lw: "\<forall>r<out_features (zero_linear 2 3). length (lin_weight l' ! r) = in_features (zero_linear 2 3) \<and>
            (\<forall>j<in_features (zero_linear 2 3).
               lin_weight l' ! r ! j = sqrt (2 / real (in_features (zero_linear 2 3)))
                 * const_stream 1 (r * in_features (zero_linear 2 3) + j))"
    by blast
  from lw have "lin_weight l' ! 2 ! 1 = 1"
    by (simp add: zero_linear_def const_stream_def)
  moreover have "replicate 2 (0::real) = [0, 0]" "replicate 3 (0::real) = [0, 0, 0]"
    by (simp_all add: numeral_2_eq_2 numeral_3_eq_3)
  ultimately show ?thesis using c l by auto
qed

text \<open>
  Claim C7. \<^verbatim>\<open>init_weights\<close> returns nothing but the module it was given, and a layer that
  is neither convolutional nor linear is left exactly as it was.
\<close>

theorem init_weights_other_layers:
  "(\<forall>c. m \<noteq> Conv1d c) \<and> (\<forall>l. m \<noteq> Linear l) \<longrightarrow> init_weights u z m = Inr m"
  by (cases m) simp_all

theorem init_weights_other_layers_witness:
  "init_weights (const_stream 0) (const_stream 0) (BatchNorm1d (new_BatchNorm1d 32))
     = Inr (BatchNorm1d (new_BatchNorm1d 32)) \<and>
   init_weights (const_stream 0) (const_stream 0) (MaxPool1d 2 2) = Inr (MaxPool1d 2 2) \<and>
   init_weights (const_stream 0) (const_stream 0) ReLU = Inr ReLU \<and>
   init_weights (const_stream 0) (const_stream 0) (Dropout (1 / 2)) = Inr (Dropout (1 / 2))"
  using init_weights_other_layers [of "BatchNorm1d (new_BatchNorm1d 32)" "const_stream 0" "const_stream 0"]
    init_weights_other_layers [of "MaxPool1d 2 2" "const_stream 0" "const_stream 0"]
    init_weights_other_layers [of ReLU "const_stream 0" "const_stream 0"]
    init_weights_other_layers [of "Dropout (1 / 2)" "const_stream 0" "const_stream 0"]
  by simp

text \<open>
  Claim C8. The pipeline of the MLP classifier is exactly: linear from \<open>bins * marks\<close> to
  600, softplus, linear from 600 to 500, softplus, linear from 500 to 400, softplus,
  dropout with rate 0.5, linear from 400 to the number of classes, softmax over dimension
  1, the class dimension. The constructor returns for every non-negative input width and
  number of classes; dropout is the identity in evaluation mode, and in training mode it
  zeroes the elements the generator drops and doubles the others.
\<close>

theorem KimNet_init_pipeline:
  "(0 \<le> bins0 * marks0 \<and> 0 \<le> nb_cls \<longrightarrow> (\<exists>self. KimNet_init w bins0 marks0 nb_cls = Inr self)) \<and>
   (\<forall>self. KimNet_init w bins0 marks0 nb_cls = Inr self \<longrightarrow>
      (\<exists>l1 l2 l3 l4.
         model self = [Linear l1, Softplus, Linear l2, Softplus, Linear l3, Softplus,
                       Dropout (1 / 2), Linear l4, Softmax 1] \<and>
         in_features l1 = nat (bins0 * marks0) \<and> out_features l1 = 600 \<and>
         in_features l2 = 600 \<and> out_features l2 = 500 \<and>
         in_features l3 = 500 \<and> out_features l3 = 400 \<and>
         in_features l4 = 400 \<and> out_features l4 = nat nb_cls)) \<and>
   layer_forward False (Dropout (1 / 2)) g x = Inr (x, Dropout (1 / 2), g) \<and>
   (\<exists>y g'. layer_forward True (Dropout (1 / 2)) g x = Inr (y, Dropout (1 / 2), g') \<and>
      shape y = shape x \<and>
      data y = map (\<lambda>k. if g k then 2 * data x ! k else 0) [0..<length (data x)])"
proof (intro conjI allI impI)
  assume "0 \<le> bins0 * marks0 \<and> 0 \<le> nb_cls"
  then show "\<exists>self. KimNet_init w bins0 marks0 nb_cls = Inr self"
    by (simp add: KimNet_init_total)
next
  fix self assume "KimNet_init w bins0 marks0 nb_cls = Inr self"
  from KimNet_init_Inr [OF this]
  show "\<exists>l1 l2 l3 l4.
         model self = [Linear l1, Softplus, Linear l2, Softplus, Linear l3, Softplus,
                       Dropout (1 / 2), Linear l4, Softmax 1] \<and>
         in_features l1 = nat (bins0 * marks0) \<and> out_features l1 = 600 \<and>
         in_features l2 = 600 \<and> out_features l2 = 500 \<and>
         in_features l3 = 500 \<and> out_features l3 = 400 \<and>
         in_features l4 = 400 \<and> out_features l4 = nat nb_cls"
    by (auto simp: KimNet_valid_def valid_linear_def)
next
  show "layer_forward False (Dropout (1 / 2)) g x = Inr (x, Dropout (1 / 2), g)"
    by (simp add: dropout_forward_def)
next
  show "\<exists>y g'. layer_forward True (Dropout (1 / 2)) g x = Inr (y, Dropout (1 / 2), g') \<and>
      shape y = shape x \<and>
      data y = map (\<lambda>k. if g k then 2 * data x ! k else 0) [0..<length (data x)]"
    by (simp add: dropout_forward_def)
qed

theorem KimNet_init_pipeline_witness:
  "\<exists>self l1 l2 l3 l4. KimNet_init (const_stream 0) 20 3 5 = Inr self \<and>
     model self = [Linear l1, Softplus, Linear l2, Softplus, Linear l3, Softplus,
                   Dropout (1 / 2), Linear l4, Softmax 1] \<and>
     in_features l1 = 60 \<and> out_features l1 = 600 \<and> in_features l2 = 600 \<and> out_features l2 = 500 \<and>
     in_features l3 = 500 \<and> out_features l3 = 400 \<and> in_features l4 = 400 \<and> out_features l4 = 5"
proof -
  note T = KimNet_init_pipeline [of 20 3 5 "const_stream 0"]
  from T [THEN conjunct1] obtain self where s: "KimNet_init (const_stream 0) 20 3 5 = Inr self" by auto
  from T [THEN conjunct2, THEN conjunct1, rule_format, OF s] s show ?thesis by auto
qed

text \<open>
  Claim C9. For every valid convolutional classifier and every input of a single sample,
  of shape \<open>(1, marks, length)\<close>, the forward pass returns a tensor of one dimension, of
  length the number of classes: the squeeze removes the batch dimension with the trailing
  one. This is so whenever the call returns, and the call returns whenever the classifier
  has at least one mark and the input (and the reverse strand, when given) is at least 4
  long, the least length the two halving pools accept. (A classifier built for no marks
  raises on every input.)
\<close>

theorem ConvNet_forward_single_sample:
  assumes v: "ConvNet_valid self M C" and x: "shape x = [1, M, L]" "wf_tensor x"
    and r: "case reverse of None \<Rightarrow> True
            | Some y \<Rightarrow> wf_tensor y \<and> (\<exists>L2. shape y = [1, M, L2])"
  shows "(\<forall>t self' g'. ConvNet_forward self g x reverse = Inr (t, self', g') \<longrightarrow>
            shape t = [C] \<and> length (data t) = C) \<and>
         (0 < M \<and> 4 \<le> L \<and> (case reverse of None \<Rightarrow> True | Some y \<Rightarrow> 4 \<le> shape y ! 2) \<longrightarrow>
            (\<exists>t self' g'. ConvNet_forward self g x reverse = Inr (t, self', g') \<and> shape t = [C]))"
proof -
  have total: "\<exists>t self' g'. ConvNet_forward self g x reverse = Inr (t, self', g') \<and>
      shape t = [C] \<and> length (data t) = C"
    if M: "0 < M" and L: "4 \<le> L"
      and L2: "case reverse of None \<Rightarrow> True | Some y \<Rightarrow> 4 \<le> shape y ! 2"
  proof -
    from r L2 have "case reverse of None \<Rightarrow> True
        | Some y \<Rightarrow> wf_tensor y \<and> (\<exists>L2. shape y = [1, M, L2] \<and> 4 \<le> L2)"
      by (cases reverse) auto
    from ConvNet_forward_ok [OF v x L M this, of g] show ?thesis by auto
  qed
  have partial: "shape t = [C] \<and> length (data t) = C"
    if f: "ConvNet_forward self g x reverse = Inr (t, self', g')" for t self' g'
  proof -
    from f obtain o1 self1 g1 where 1: "forward_prop self g x = Inr (o1, self1, g1)"
      by (auto simp: ConvNet_forward_def bind_eq_Inr)
    then have "out (forward_prop self g x) = Inr (o1, g1)" by simp
    from ConvNet_pass_Inr [OF v x(1) this] have L: "4 \<le> L" and M: "0 < M" by simp_all
    have "case reverse of None \<Rightarrow> True | Some y \<Rightarrow> 4 \<le> shape y ! 2"
    proof (cases reverse)
      case None
      then show ?thesis by simp
    next
      case (Some y)
      with r obtain L2 where y: "shape y = [1, M, L2]" by auto
      from f 1 Some obtain o2 self2 g2 where "forward_prop self1 g1 y = Inr (o2, self2, g2)"
        by (auto simp: ConvNet_forward_def bind_eq_Inr)
      then have "out (forward_prop self1 g1 y) = Inr (o2, g2)" by simp
      with forward_prop_again [OF 1, of g1 y] have "out (forward_prop self g1 y) = Inr (o2, g2)"
        by simp
      from ConvNet_pass_Inr [OF v y this] y Some show ?thesis by simp
    qed
    from total [OF M L this] f show ?thesis by auto
  qed
  from total partial show ?thesis by blast
qed

theorem ConvNet_forward_single_sample_witness:
  "\<exists>self. ConvNet_init (const_stream 0) 3 5 True = Inr self \<and> ConvNet_valid self 3 5 \<and>
     wf_tensor (zeros_tensor [1, 3, 128]) \<and>
     (\<exists>t self' g'.
        ConvNet_forward self keep_all (zeros_tensor [1, 3, 128]) (Some (zeros_tensor [1, 3, 64]))
          = Inr (t, self', g') \<and> shape t = [5])"
proof -
  from ConvNet_init_total [of 5 3 "const_stream 0" True] obtain self where
    i: "ConvNet_init (const_stream 0) 3 5 True = Inr self" and v: "ConvNet_valid self 3 5"
    by auto
  have x: "shape (zeros_tensor [1, 3, 128]) = [1, 3, 128]" "wf_tensor (zeros_tensor [1, 3, 128])"
    by (simp_all add: zeros_tensor_def)
  have r: "case Some (zeros_tensor [1, 3, 64]) of None \<Rightarrow> True
     | Some y \<Rightarrow> wf_tensor y \<and> (\<exists>L2. shape y = [1, 3, L2])"
    by (simp add: zeros_tensor_def)
  have l: "0 < (3::nat) \<and> 4 \<le> (128::nat) \<and> (case Some (zeros_tensor [1, 3, 64]) of None \<Rightarrow> True
     | Some y \<Rightarrow> 4 \<le> shape y ! 2)"
    by (simp add: zeros_tensor_def)
  from ConvNet_forward_single_sample [OF v x r, of keep_all, THEN conjunct2, rule_format, OF l]
  have "\<exists>t self' g'.
        ConvNet_forward self keep_all (zeros_tensor [1, 3, 128]) (Some (zeros_tensor [1, 3, 64]))
          = Inr (t, self', g') \<and> shape t = [5]" .
  with i v x(2) show ?thesis by blast
qed

text \<open>
  Claim C10. The forward pass of KimNet should accept a forward strand of any shape and
  layout whose number of elements is a multiple of \<open>bins * marks\<close>, and read it as a batch
  of \<open>count / (bins * marks)\<close> samples without raising. It does not accept every layout:
  \<^verbatim>\<open>Tensor.view\<close> refuses a tensor whose strides allow no view of the shape
  \<open>(count / (bins * marks), bins * marks)\<close>. The classifier for two bins and three marks
  raises on the batch of four samples that was transposed from the shape \<open>(4, 3, 2)\<close> to the
  shape \<open>(4, 2, 3)\<close>, although it has \<open>4 * 2 * 3\<close> elements.
\<close>

theorem KimNet_forward_any_layout_counterexample:
  "KimNet_valid wide_KimNet 2 \<and> wf_tensor transposed_batch \<and>
   shape transposed_batch = [4, nat (bins wide_KimNet), nat (marks wide_KimNet)] \<and>
   numel transposed_batch mod nat (bins wide_KimNet * marks wide_KimNet) = 0 \<and>
   KimNet_forward wide_KimNet keep_all transposed_batch None = Inl RuntimeError"
proof -
  have v: "KimNet_valid wide_KimNet 2"
    by (simp add: KimNet_valid_def wide_KimNet_def valid_linear_def zero_linear_def
        first_class_linear_def)
  have w: "wf_tensor transposed_batch"
    by (simp add: wf_tensor_def transposed_batch_def)
  have s: "shape transposed_batch = [4, nat (bins wide_KimNet), nat (marks wide_KimNet)]"
    by (simp add: transposed_batch_def wide_KimNet_def)
  have m: "numel transposed_batch mod nat (bins wide_KimNet * marks wide_KimNet) = 0"
    by (simp add: numel_def transposed_batch_def wide_KimNet_def)
  have k: "bins wide_KimNet * marks wide_KimNet = 6"
    by (simp add: wide_KimNet_def)
  have "compute_stride [4, 2, 3] [6, 1, 2] [4, 6] = None"
    by (simp add: compute_stride_def Let_def)
  then have "view transposed_batch 6 = Inl RuntimeError"
    by (simp add: view_def numel_def transposed_batch_def)
  then have e: "KimNet_forward wide_KimNet keep_all transposed_batch None = Inl RuntimeError"
    by (simp only: KimNet_forward_def k bind_Inl)
  show ?thesis by (intro conjI v w s m e)
qed

text \<open>
  Claim C10, amended: the forward pass accepts a forward strand of any shape whose number
  of elements is a multiple of \<open>bins * marks\<close> and whose strides allow the view, as those
  of every contiguous tensor do (\<open>contiguous_view_compatible\<close>): it returns a tensor of
  shape (batch, number of classes) for the batch of \<open>count / (bins * marks)\<close> samples, and
  another tensor with the same elements, whatever its shape, gives the same result if it
  allows the view. A reverse strand is accepted under the same conditions if it has as
  many elements as the forward strand, as a strand of the same shape has; \<^verbatim>\<open>torch.add\<close>
  also accepts two batches one of which has a single sample, and the result then has the
  size of the other one.
\<close>

theorem KimNet_forward_any_layout:
  assumes v: "KimNet_valid self C" and k: "0 < bins self * marks self"
    and x: "wf_tensor x" "numel x mod nat (bins self * marks self) = 0"
      "view_compatible x [numel x div nat (bins self * marks self), nat (bins self * marks self)]"
    and r: "case reverse of None \<Rightarrow> True
            | Some y \<Rightarrow> wf_tensor y \<and> numel y mod nat (bins self * marks self) = 0 \<and>
                view_compatible y
                  [numel y div nat (bins self * marks self), nat (bins self * marks self)] \<and>
                (numel y = numel x \<or> numel y = nat (bins self * marks self) \<or>
                 numel x = nat (bins self * marks self))"
  shows "(\<exists>t self' g'.
            KimNet_forward self g x reverse = Inr (t, self', g') \<and>
            shape t = [case reverse of None \<Rightarrow> numel x div nat (bins self * marks self)
                       | Some y \<Rightarrow> (if numel x = nat (bins self * marks self) then numel y else numel x)
                                   div nat (bins self * marks self), C]) \<and>
         (\<forall>x'. data x' = data x \<and> numel x' = numel x \<and>
               view_compatible x'
                 [numel x div nat (bins self * marks self), nat (bins self * marks self)] \<longrightarrow>
            KimNet_forward self g x' reverse = KimNet_forward self g x reverse)"
proof
  let ?k = "nat (bins self * marks self)"
  from k have k': "0 < ?k" by simp
  let ?N = "numel x div ?k"
  from numel_div [OF k' x(2)] have nx: "numel x = ?N * ?k" .
  show "\<exists>t self' g'.
            KimNet_forward self g x reverse = Inr (t, self', g') \<and>
            shape t = [case reverse of None \<Rightarrow> numel x div ?k
                       | Some y \<Rightarrow> (if numel x = ?k then numel y else numel x) div ?k, C]"
  proof (cases reverse)
    case None
    from KimNet_forward_None [OF v k x(1) nx x(3), of g] None show ?thesis by auto
  next
    case (Some y)
    let ?M = "numel y div ?k"
    from Some r have y: "wf_tensor y" "numel y mod ?k = 0" "view_compatible y [?M, ?k]"
      and c: "numel y = numel x \<or> numel y = ?k \<or> numel x = ?k" by simp_all
    from numel_div [OF k' y(2)] have ny: "numel y = ?M * ?k" .
    from KimNet_forward_Some [OF v k x(1) nx x(3) y(1) ny y(3), of g] obtain o1 o2 where
      run: "map_sum id fst (KimNet_forward self g x (Some y)) =
              bind (torch_add o1 o2) (\<lambda>s. Inr (torch_log (torch_div s 2)))"
      and o: "shape o1 = [?N, C]" "shape o2 = [?M, C]"
      by blast
    let ?B = "(if numel x = ?k then numel y else numel x) div ?k"
    from c have "numel y = numel x \<or> numel y = ?k \<or> numel x = ?k" .
    from broadcast_batch [OF k' x(2) y(2) this]
    have "broadcast_dim ?N ?M = Some ?B" .
    with torch_add_2d [OF o] obtain s where s: "torch_add o1 o2 = Inr s" "shape s = [?B, C]"
      by (cases "torch_add o1 o2") auto
    with run obtain self' g' where
      "KimNet_forward self g x (Some y) = Inr (torch_log (torch_div s 2), self', g')"
      by (cases "KimNet_forward self g x (Some y)") auto
    with s Some show ?thesis by simp
  qed
next
  let ?k = "nat (bins self * marks self)"
  from k have k': "0 < ?k" by simp
  let ?N = "numel x div ?k"
  from numel_div [OF k' x(2)] have nx: "numel x = ?N * ?k" .
  show "\<forall>x'. data x' = data x \<and> numel x' = numel x \<and> view_compatible x' [?N, ?k] \<longrightarrow>
            KimNet_forward self g x' reverse = KimNet_forward self g x reverse"
  proof (intro allI impI)
    fix x' assume a: "data x' = data x \<and> numel x' = numel x \<and> view_compatible x' [?N, ?k]"
    with x(1) have wf': "wf_tensor x'" by (simp add: wf_tensor_def numel_def)
    from a nx have nx': "numel x' = ?N * ?k" by simp
    from a have c': "view_compatible x' [?N, ?k]" by simp
    from view_ok [OF k x(1) nx x(3)] obtain v1 where
      v1: "view x (bins self * marks self) = Inr v1" "shape v1 = [?N, ?k]" "data v1 = data x"
      by blast
    from view_ok [OF k wf' nx' c'] obtain v1' where
      v1': "view x' (bins self * marks self) = Inr v1'" "shape v1' = [?N, ?k]" "data v1' = data x'"
      by blast
    from v1(2,3) v1'(2,3) a have "shape v1' = shape v1" "data v1' = data v1" by simp_all
    from KimNet_forward_cong [OF v v1'(1) v1(1) this]
    show "KimNet_forward self g x' reverse = KimNet_forward self g x reverse" .
  qed
qed

theorem KimNet_forward_any_layout_witness:
  "KimNet_valid example_KimNet 2 \<and> wf_tensor (zeros_tensor [3, 2]) \<and>
   view_compatible (zeros_tensor [3, 2]) [6, 1] \<and> view_compatible (zeros_tensor [2, 3]) [6, 1] \<and>
   view_compatible (zeros_tensor [6]) [6, 1] \<and>
   (\<exists>t self' g'.
      KimNet_forward example_KimNet keep_all (zeros_tensor [3, 2]) (Some (zeros_tensor [2, 3]))
        = Inr (t, self', g') \<and> shape t = [6, 2]) \<and>
   KimNet_forward example_KimNet keep_all (zeros_tensor [6]) (Some (zeros_tensor [2, 3]))
     = KimNet_forward example_KimNet keep_all (zeros_tensor [3, 2]) (Some (zeros_tensor [2, 3]))"
proof -
  define k where "k = nat (bins example_KimNet * marks example_KimNet)"
  have k1: "k = 1" by (simp add: k_def example_KimNet_def)
  have v: "KimNet_valid example_KimNet 2"
    by (rule example_KimNet_valid)
  have k: "0 < bins example_KimNet * marks example_KimNet"
    by (simp add: example_KimNet_def)
  have n: "numel (zeros_tensor [3, 2]) = 6" "numel (zeros_tensor [2, 3]) = 6"
    "numel (zeros_tensor [6]) = 6"
    by (simp_all add: zeros_tensor_def numel_def)
  have c: "view_compatible (zeros_tensor [3, 2]) [6, 1]"
    "view_compatible (zeros_tensor [2, 3]) [6, 1]" "view_compatible (zeros_tensor [6]) [6, 1]"
    by (rule contiguous_view_compatible [OF zeros_tensor_contiguous], simp add: n, simp)+
  have x: "wf_tensor (zeros_tensor [3, 2])"
    "numel (zeros_tensor [3, 2]) mod k = 0"
    "view_compatible (zeros_tensor [3, 2]) [numel (zeros_tensor [3, 2]) div k, k]"
    using c by (simp_all add: n k1) (simp add: zeros_tensor_def)
  have r: "case Some (zeros_tensor [2, 3]) of None \<Rightarrow> True
     | Some y \<Rightarrow> wf_tensor y \<and> numel y mod k = 0 \<and>
         view_compatible y [numel y div k, k] \<and>
         (numel y = numel (zeros_tensor [3, 2]) \<or> numel y = k \<or>
          numel (zeros_tensor [3, 2]) = k)"
    using c by (simp add: n k1) (simp add: zeros_tensor_def)
  have d: "data (zeros_tensor [6]) = data (zeros_tensor [3, 2]) \<and>
      numel (zeros_tensor [6]) = numel (zeros_tensor [3, 2]) \<and>
      view_compatible (zeros_tensor [6]) [numel (zeros_tensor [3, 2]) div k, k]"
    using c by (simp add: n k1) (simp add: zeros_tensor_def)
  have b: "(if numel (zeros_tensor [3, 2]) = k
            then numel (zeros_tensor [2, 3]) else numel (zeros_tensor [3, 2])) div k = 6"
    by (simp add: n k1)
  note T = KimNet_forward_any_layout [OF v k x [unfolded k_def] r [unfolded k_def], of keep_all]
  from T [THEN conjunct1] have a: "\<exists>t self' g'.
      KimNet_forward example_KimNet keep_all (zeros_tensor [3, 2]) (Some (zeros_tensor [2, 3]))
        = Inr (t, self', g') \<and> shape t = [6, 2]"
    unfolding option.case b [unfolded k_def] .
  from T [THEN conjunct2, rule_format, OF d [unfolded k_def]]
  have e: "KimNet_forward example_KimNet keep_all (zeros_tensor [6]) (Some (zeros_tensor [2, 3]))
     = KimNet_forward example_KimNet keep_all (zeros_tensor [3, 2]) (Some (zeros_tensor [2, 3]))" .
  show ?thesis by (intro conjI v x(1) c a e)
qed

end
